theory Spec2Isabelle
  imports Complex_Main "HOL-Library.Word"
begin

section \<open>Python values used by \<open>optimize.py\<close>\<close>

text \<open>
  The exceptions that can be raised: a failed \<open>assert\<close>, an index out of range, a
  true division by zero, an int too large to convert to a float, and the error of the
  tensor library on shapes that do not fit.  The specification calls the failed
  assertion of \<open>DataBatchToVariables\<close> a MalformedBatch condition and the shape error
  a ShapeMismatch condition.
\<close>

datatype py_error =
  AssertionError | IndexError | ZeroDivisionError | OverflowError | RuntimeError

text \<open>
  A Python \<open>float\<close>: a finite value, one of the two infinities, or not-a-number.
  Finite arithmetic is exact (rounding, overflow and the sign of zero are not modelled);
  the special values follow IEEE 754.
\<close>

datatype pyfloat = Fin real | PInf | NInf | NaN

text \<open>
  The conversion of an \<open>int\<close> operand to a \<open>float\<close>, which the arithmetic operators
  make when the other operand is a \<open>float\<close>.  It raises \<open>OverflowError\<close> when the
  int rounds to a magnitude beyond the largest float: the largest float is
  \<open>2^1024 - 2^971\<close>, and rounding to nearest takes every int of magnitude
  \<open>2^1024 - 2^970\<close> or more beyond it.
\<close>

definition overflow_bound :: int where
  "overflow_bound = 2 ^ 1024 - 2 ^ 970"

definition py_float :: "int \<Rightarrow> py_error + pyfloat" where
  "py_float n =
     (if overflow_bound \<le> \<bar>n\<bar> then Inl OverflowError else Inr (Fin (real_of_int n)))"

fun fneg :: "pyfloat \<Rightarrow> pyfloat" where
  "fneg (Fin a) = Fin (- a)"
| "fneg PInf = NInf"
| "fneg NInf = PInf"
| "fneg NaN = NaN"

fun fadd :: "pyfloat \<Rightarrow> pyfloat \<Rightarrow> pyfloat" where
  "fadd NaN _ = NaN"
| "fadd _ NaN = NaN"
| "fadd (Fin a) (Fin b) = Fin (a + b)"
| "fadd (Fin a) PInf = PInf"
| "fadd (Fin a) NInf = NInf"
| "fadd PInf NInf = NaN"
| "fadd PInf _ = PInf"
| "fadd NInf PInf = NaN"
| "fadd NInf _ = NInf"

text \<open>The sign of a float: \<open>1\<close>, \<open>0\<close> or \<open>-1\<close>; \<open>None\<close> for not-a-number.\<close>

fun fsign :: "pyfloat \<Rightarrow> int option" where
  "fsign (Fin a) = Some (if a > 0 then 1 else if a < 0 then -1 else 0)"
| "fsign PInf = Some 1"
| "fsign NInf = Some (-1)"
| "fsign NaN = None"

definition inf_of_sign :: "int \<Rightarrow> pyfloat" where
  "inf_of_sign s = (if s > 0 then PInf else if s < 0 then NInf else NaN)"

fun fmul :: "pyfloat \<Rightarrow> pyfloat \<Rightarrow> pyfloat" where
  "fmul (Fin a) (Fin b) = Fin (a * b)"
| "fmul x y =
     (case (fsign x, fsign y) of
        (Some s, Some t) \<Rightarrow> inf_of_sign (s * t)
      | _ \<Rightarrow> NaN)"

text \<open>
  IEEE division, total: a finite non-zero value over zero is an infinity, zero over zero
  and infinity over infinity are not-a-number.
\<close>

fun fdiv :: "pyfloat \<Rightarrow> pyfloat \<Rightarrow> pyfloat" where
  "fdiv NaN _ = NaN"
| "fdiv _ NaN = NaN"
| "fdiv (Fin a) (Fin b) = (if b = 0 then inf_of_sign (if a > 0 then 1 else if a < 0 then -1 else 0) else Fin (a / b))"
| "fdiv (Fin a) _ = Fin 0"
| "fdiv x (Fin b) = (case fsign x of Some s \<Rightarrow> inf_of_sign (if b < 0 then - s else s) | None \<Rightarrow> NaN)"
| "fdiv _ _ = NaN"

text \<open>Python's \<open>x / y\<close> on floats: it raises when the divisor is zero, whatever \<open>x\<close> is.\<close>

definition py_truediv :: "pyfloat \<Rightarrow> pyfloat \<Rightarrow> py_error + pyfloat" where
  "py_truediv x y = (if y = Fin 0 then Inl ZeroDivisionError else Inr (fdiv x y))"

text \<open>
  The operators with one \<open>int\<close> operand: \<open>x / n\<close>, \<open>n / x\<close> and \<open>x * n\<close> for a
  float \<open>x\<close> and an int \<open>n\<close>.  The int is converted first, so that its
  \<open>OverflowError\<close> comes before the check of the divisor.
\<close>

definition float_truediv_int :: "pyfloat \<Rightarrow> int \<Rightarrow> py_error + pyfloat" where
  "float_truediv_int x n =
     (case py_float n of Inl e \<Rightarrow> Inl e | Inr y \<Rightarrow> py_truediv x y)"

definition int_truediv_float :: "int \<Rightarrow> pyfloat \<Rightarrow> py_error + pyfloat" where
  "int_truediv_float n y =
     (case py_float n of Inl e \<Rightarrow> Inl e | Inr x \<Rightarrow> py_truediv x y)"

definition float_mul_int :: "pyfloat \<Rightarrow> int \<Rightarrow> py_error + pyfloat" where
  "float_mul_int x n =
     (case py_float n of Inl e \<Rightarrow> Inl e | Inr y \<Rightarrow> Inr (fmul x y))"

text \<open>\<open>x < y\<close> on floats: every comparison with not-a-number is false.\<close>

fun flt :: "pyfloat \<Rightarrow> pyfloat \<Rightarrow> bool" where
  "flt NaN _ = False"
| "flt _ NaN = False"
| "flt (Fin a) (Fin b) = (a < b)"
| "flt (Fin a) PInf = True"
| "flt (Fin a) NInf = False"
| "flt PInf _ = False"
| "flt NInf NInf = False"
| "flt NInf _ = True"


text \<open>Python's \<open>sum\<close> over a list of floats (it starts from \<open>0\<close>).\<close>

definition py_sum :: "pyfloat list \<Rightarrow> pyfloat" where
  "py_sum xs = foldl fadd (Fin 0) xs"

definition py_sum_int :: "int list \<Rightarrow> int" where
  "py_sum_int xs = foldl (+) 0 xs"

text \<open>Running a list of computations that may raise, stopping at the first exception.\<close>

primrec sequence :: "('e + 'a) list \<Rightarrow> 'e + 'a list" where
  "sequence [] = Inr []"
| "sequence (r # rs) =
     (case r of
        Inl e \<Rightarrow> Inl e
      | Inr x \<Rightarrow> (case sequence rs of Inl e \<Rightarrow> Inl e | Inr xs \<Rightarrow> Inr (x # xs)))"

text \<open>
  A slice \<open>xs[a:b]\<close> with Python's rules: a negative bound counts from the end, and
  both bounds are clamped to the list.
\<close>

definition py_slice :: "'a list \<Rightarrow> int \<Rightarrow> int \<Rightarrow> 'a list" where
  "py_slice xs a b =
     (let n = int (length xs);
          a' = (if a < 0 then max (a + n) 0 else min a n);
          b' = (if b < 0 then max (b + n) 0 else min b n)
      in take (nat (b' - a')) (drop (nat a') xs))"

text \<open>\<open>xs[-1]\<close> and \<open>xs[0]\<close>\<close>

definition py_last :: "'a list \<Rightarrow> py_error + 'a" where
  "py_last xs = (if xs = [] then Inl IndexError else Inr (last xs))"

definition py_first :: "'a list \<Rightarrow> py_error + 'a" where
  "py_first xs = (case xs of [] \<Rightarrow> Inl IndexError | x # _ \<Rightarrow> Inr x)"

definition py_index :: "'a list \<Rightarrow> nat \<Rightarrow> py_error + 'a" where
  "py_index xs i = (if i < length xs then Inr (xs ! i) else Inl IndexError)"

section \<open>Metrics aggregation and batch transfer\<close>

text \<open>
  \<open>AverageLosses(total_losses, total_examples)\<close>: the list comprehension over
  \<open>zip\<close>, with the division of the source and its guard \<open>y > 0\<close>.
\<close>

definition average_entry :: "pyfloat \<times> int \<Rightarrow> py_error + pyfloat" where
  "average_entry xy =
     (case xy of (x, y) \<Rightarrow> if y > 0 then float_truediv_int x y else Inr PInf)"

definition AverageLosses :: "pyfloat list \<Rightarrow> int list \<Rightarrow> py_error + pyfloat list" where
  "AverageLosses total_losses total_examples =
     sequence (map average_entry (zip total_losses total_examples))"

text \<open>
  \<open>DataBatchToVariables(batch, num_inputs, num_labels)\<close>.  Wrapping a tensor in a
  \<open>Variable\<close> and moving it to the device leaves its contents as they are, so the
  tensors are returned unchanged.
\<close>

definition DataBatchToVariables ::
  "'t list \<Rightarrow> int \<Rightarrow> int \<Rightarrow> py_error + ('t list \<times> 't list \<times> 't)" where
  "DataBatchToVariables batch num_inputs num_labels =
     (if int (length batch) \<noteq> num_inputs + num_labels + 1 then Inl AssertionError
      else
        let input_vars = py_slice batch 0 num_inputs;
            label_vars = py_slice batch num_inputs (num_inputs + num_labels)
        in case py_last batch of
             Inl e \<Rightarrow> Inl e
           | Inr weights_var \<Rightarrow> Inr (input_vars, label_vars, weights_var))"

section \<open>The training loop\<close>

subsection \<open>Models, settings and the outside world\<close>

text \<open>
  A model (\<open>torch.nn.Module\<close>) as far as \<open>TrainModels\<close> sees it: its two name
  lists, its learnable state \<open>params\<close> (what \<open>state_dict()\<close> returns) and the
  mode flag that \<open>eval()\<close> and \<open>train()\<close> switch.
\<close>

record 'p net =
  input_names :: "string list"
  label_names :: "string list"
  params :: 'p
  training :: bool

text \<open>
  \<open>TrainSettings = namedtuple('TrainSettings', ['loss', 'optimizer', 'epochs'])\<close>.
  \<open>loss\<close> gives the value \<open>loss_value.data[0]\<close> of the loss on the outputs, labels and
  weights; \<open>optimizer\<close> gives, from the learnable state and the mode of the model, its
  learnable state after \<open>backward()\<close> and \<open>step()\<close> on the batch.
\<close>

record ('p, 't) TrainSettings =
  loss :: "'t list \<Rightarrow> 't list \<Rightarrow> 't \<Rightarrow> pyfloat"
  optimizer :: "'p \<Rightarrow> bool \<Rightarrow> 't list \<Rightarrow> 't list \<Rightarrow> 't \<Rightarrow> 'p"
  epochs :: int

text \<open>
  What the library and the system supply: the forward pass \<open>net(input_vars)\<close> (from
  the learnable state and the mode of the model), the
  leading dimension \<open>x.size()[0]\<close> of a tensor, the successive values of
  \<open>random.uniform(0.0, 1.0)\<close> and of \<open>time.time()\<close>.  The dimensions of a tensor
  are non-negative 64-bit signed integers, that is, numbers of 63 bits.
\<close>

record ('p, 't) world =
  forward :: "'p \<Rightarrow> bool \<Rightarrow> 't list \<Rightarrow> 't list"
  size0 :: "'t \<Rightarrow> 63 word"
  uniform :: "nat \<Rightarrow> real"
  clock :: "nat \<Rightarrow> real"

text \<open>The dictionary \<open>epoch_metrics\<close>, with the module's four keys.\<close>

record metrics =
  TRAIN_LOSS :: pyfloat
  VAL_LOSS :: pyfloat
  EPOCH_DURATION_SEC :: pyfloat
  EXAMPLES_PER_SEC :: pyfloat

text \<open>The calls that act on the models, the optimizers, the file system and the logs.\<close>

datatype 'p event =
    TbConfigure string
  | ZeroGrad nat
  | Forward nat
  | Backward nat
  | Step nat
  | EvalCall nat
  | TrainCall nat
  | Cpu nat
  | Cuda nat
  | Save string 'p
  | PrintLog nat metrics string
  | TbLogValue string pyfloat nat

text \<open>
  The state of a run: the models, the calls made so far, the number of random draws
  made so far, and the local variables of \<open>TrainModels\<close>.
\<close>

record 'p state =
  nets :: "'p net list"
  trace :: "'p event list"
  draws :: nat
  train_log :: "metrics list"
  min_validation_losses :: "pyfloat list"
  min_validation_loss :: pyfloat
  running_losses :: "pyfloat list"
  train_examples_per_net :: "int list"
  epoch_duration :: pyfloat
  examples_per_sec :: pyfloat
  avg_losses :: "pyfloat list"
  avg_loss :: pyfloat
  validation_total_losses :: "pyfloat list"
  validation_examples :: "int list"
  validation_avg_losses :: "pyfloat list"
  validation_avg_loss :: pyfloat
  val_improved_marker :: string

text \<open>
  A step either completes or raises; the state at the raise is kept, since the calls
  made before it are not undone.
\<close>

datatype 's outcome = Raised py_error 's | Ok 's

definition and_then :: "'s outcome \<Rightarrow> ('s \<Rightarrow> 's outcome) \<Rightarrow> 's outcome" where
  "and_then r f = (case r of Raised e s \<Rightarrow> Raised e s | Ok s \<Rightarrow> f s)"

primrec for_each :: "'x list \<Rightarrow> ('x \<Rightarrow> 's \<Rightarrow> 's outcome) \<Rightarrow> 's \<Rightarrow> 's outcome" where
  "for_each [] body s = Ok s"
| "for_each (x # xs) body s = and_then (body x s) (for_each xs body)"

text \<open>
  Using a value whose computation may raise: on failure the exception leaves the state
  as it is.  \<open>assign\<close> is the case of an assignment to a local variable.
\<close>

definition with_value :: "(py_error + 'a) \<Rightarrow> 's \<Rightarrow> ('a \<Rightarrow> 's outcome) \<Rightarrow> 's outcome" where
  "with_value r s f = (case r of Inl e \<Rightarrow> Raised e s | Inr v \<Rightarrow> f v)"

definition assign :: "(py_error + 'a) \<Rightarrow> ('a \<Rightarrow> 's \<Rightarrow> 's) \<Rightarrow> 's \<Rightarrow> 's outcome" where
  "assign r upd s = with_value r s (\<lambda>v. Ok (upd v s))"

definition emit :: "'p event list \<Rightarrow> 'p state \<Rightarrow> 'p state" where
  "emit evs s = s\<lparr>trace := trace s @ evs\<rparr>"

text \<open>\<open>str(n)\<close> for a list index, and the two checkpoint paths.\<close>

definition digit_char :: "nat \<Rightarrow> char" where
  "digit_char d = char_of (48 + d)"

fun str_nat :: "nat \<Rightarrow> string" where
  "str_nat n = (if n < 10 then [digit_char n] else str_nat (n div 10) @ [digit_char (n mod 10)])"

definition best_path :: "string \<Rightarrow> nat \<Rightarrow> string" where
  "best_path out_prefix net_idx = out_prefix @ ''-'' @ str_nat net_idx @ ''-best.pth''"

definition last_path :: "string \<Rightarrow> nat \<Rightarrow> string" where
  "last_path out_prefix net_id = out_prefix @ ''-'' @ str_nat net_id @ ''-last.pth''"

subsection \<open>Training phase\<close>

text \<open>
  The body of \<open>for net_idx, net in enumerate(nets)\<close> in the training phase (lines
  100 to 113).  The accumulator lists are built with one entry per model, so
  \<open>net_idx\<close> is in range for them; \<open>train_settings\<close> is the caller's list and
  \<open>input_vars\<close> may be empty, and both reads can raise.
\<close>

definition train_net_on_batch ::
  "('p, 't) world \<Rightarrow> ('p, 't) TrainSettings list \<Rightarrow> pyfloat \<Rightarrow>
   't list \<Rightarrow> 't list \<Rightarrow> 't \<Rightarrow> nat \<Rightarrow> 'p state \<Rightarrow> 'p state outcome" where
  "train_net_on_batch w train_settings batch_use_prob input_vars label_vars weights_var net_idx s =
     (let u = uniform w (draws s);
          s1 = s\<lparr>draws := Suc (draws s)\<rparr>
      in if flt (Fin u) batch_use_prob then
           let net = nets s1 ! net_idx;
               outputs = forward w (params net) (training net) input_vars;
               s2 = emit [Forward net_idx] s1
           in with_value (py_index train_settings net_idx) s2 (\<lambda>settings.
                let loss_value = loss settings outputs label_vars weights_var;
                    net' = net\<lparr>params := optimizer settings (params net) (training net)
                                             input_vars label_vars weights_var\<rparr>;
                    s3 = emit [Backward net_idx, Step net_idx, ZeroGrad net_idx]
                           (s2\<lparr>nets := (nets s2)[net_idx := net']\<rparr>)
                in with_value (py_first input_vars) s3 (\<lambda>x.
                     let batch_size = uint (size0 w x);
                         s4 = s3\<lparr>train_examples_per_net :=
                                  (train_examples_per_net s3)
                                    [net_idx := train_examples_per_net s3 ! net_idx + batch_size]\<rparr>
                     in with_value (float_mul_int loss_value batch_size) s4 (\<lambda>weighted.
                          Ok (s4\<lparr>running_losses :=
                                   (running_losses s4)
                                     [net_idx := fadd (running_losses s4 ! net_idx) weighted]\<rparr>))))
         else Ok s1)"

text \<open>The body of \<open>for training_batch in train_loader\<close> (lines 96 to 113).\<close>

definition train_on_batch ::
  "('p, 't) world \<Rightarrow> ('p, 't) TrainSettings list \<Rightarrow> pyfloat \<Rightarrow> int \<Rightarrow> int \<Rightarrow>
   't list \<Rightarrow> 'p state \<Rightarrow> 'p state outcome" where
  "train_on_batch w train_settings batch_use_prob num_inputs num_labels training_batch s =
     (case DataBatchToVariables training_batch num_inputs num_labels of
        Inl e \<Rightarrow> Raised e s
      | Inr (input_vars, label_vars, weights_var) \<Rightarrow>
          for_each [0..<length (nets s)]
            (train_net_on_batch w train_settings batch_use_prob input_vars label_vars weights_var) s)"

text \<open>Lines 90 to 93: fresh accumulators, and \<open>zero_grad()\<close> on every optimizer.\<close>

definition epoch_reset :: "('p, 't) TrainSettings list \<Rightarrow> 'p state \<Rightarrow> 'p state" where
  "epoch_reset train_settings s =
     emit (map ZeroGrad [0..<length train_settings])
       (s\<lparr>running_losses := replicate (length (nets s)) (Fin 0),
          train_examples_per_net := replicate (length (nets s)) 0\<rparr>)"

definition training_phase ::
  "('p, 't) world \<Rightarrow> ('p, 't) TrainSettings list \<Rightarrow> pyfloat \<Rightarrow> int \<Rightarrow> int \<Rightarrow>
   't list list \<Rightarrow> 'p state \<Rightarrow> 'p state outcome" where
  "training_phase w train_settings batch_use_prob num_inputs num_labels batches s =
     for_each batches (train_on_batch w train_settings batch_use_prob num_inputs num_labels)
       (epoch_reset train_settings s)"

text \<open>
  Lines 116 to 119.  The two clock readings of epoch \<open>epoch\<close> are the readings number
  \<open>2 * epoch\<close> and \<open>2 * epoch + 1\<close> of the run.
\<close>

definition training_stats :: "('p, 't) world \<Rightarrow> nat \<Rightarrow> 'p state \<Rightarrow> 'p state outcome" where
  "training_stats w epoch s =
     (let epoch_start_time = clock w (2 * epoch);
          epoch_end_time = clock w (2 * epoch + 1);
          s1 = s\<lparr>epoch_duration := Fin (epoch_end_time - epoch_start_time)\<rparr>
      in and_then
           (assign
              (int_truediv_float (py_sum_int (train_examples_per_net s1)) (epoch_duration s1))
              (\<lambda>v t. t\<lparr>examples_per_sec := v\<rparr>) s1) (\<lambda>s2.
         and_then
           (assign (AverageLosses (running_losses s2) (train_examples_per_net s2))
              (\<lambda>v t. t\<lparr>avg_losses := v\<rparr>) s2) (\<lambda>s3.
         assign
           (float_truediv_int (py_sum (running_losses s3))
              (py_sum_int (train_examples_per_net s3)))
           (\<lambda>v t. t\<lparr>avg_loss := v\<rparr>) s3)))"

subsection \<open>Validation phase\<close>

text \<open>\<open>net.eval()\<close> (\<open>False\<close>) and \<open>net.train()\<close> (\<open>True\<close>) on model \<open>i\<close>.\<close>

definition set_training :: "bool \<Rightarrow> nat \<Rightarrow> 'p state \<Rightarrow> 'p state" where
  "set_training b i s =
     emit [if b then TrainCall i else EvalCall i]
       (s\<lparr>nets := (nets s)[i := (nets s ! i)\<lparr>training := b\<rparr>]\<rparr>)"

text \<open>The body of \<open>for net_idx, net in enumerate(nets)\<close> in the validation phase (lines 131 to 138).\<close>

definition validate_net_on_batch ::
  "('p, 't) world \<Rightarrow> ('p, 't) TrainSettings list \<Rightarrow>
   't list \<Rightarrow> 't list \<Rightarrow> 't \<Rightarrow> nat \<Rightarrow> 'p state \<Rightarrow> 'p state outcome" where
  "validate_net_on_batch w train_settings input_vars label_vars weights_var net_idx s =
     (let net = nets s ! net_idx;
          outputs = forward w (params net) (training net) input_vars;
          s1 = emit [Forward net_idx] s
      in with_value (py_index train_settings net_idx) s1 (\<lambda>settings.
           let loss_value = loss settings outputs label_vars weights_var
           in with_value (py_first input_vars) s1 (\<lambda>x.
                let batch_size = uint (size0 w x);
                    s2 = s1\<lparr>validation_examples :=
                             (validation_examples s1)
                               [net_idx := validation_examples s1 ! net_idx + batch_size]\<rparr>
                in with_value (float_mul_int loss_value batch_size) s2 (\<lambda>weighted.
                     Ok (s2\<lparr>validation_total_losses :=
                              (validation_total_losses s2)
                                [net_idx := fadd (validation_total_losses s2 ! net_idx)
                                              weighted]\<rparr>)))))"

definition validate_on_batch ::
  "('p, 't) world \<Rightarrow> ('p, 't) TrainSettings list \<Rightarrow> int \<Rightarrow> int \<Rightarrow>
   't list \<Rightarrow> 'p state \<Rightarrow> 'p state outcome" where
  "validate_on_batch w train_settings num_inputs num_labels val_batch s =
     (case DataBatchToVariables val_batch num_inputs num_labels of
        Inl e \<Rightarrow> Raised e s
      | Inr (input_vars, label_vars, weights_var) \<Rightarrow>
          for_each [0..<length (nets s)]
            (validate_net_on_batch w train_settings input_vars label_vars weights_var) s)"

text \<open>Lines 121 to 125: fresh validation accumulators, then \<open>eval()\<close> on every model.\<close>

definition validation_reset :: "'p state \<Rightarrow> 'p state" where
  "validation_reset s =
     fold (set_training False) [0..<length (nets s)]
       (s\<lparr>validation_total_losses := replicate (length (nets s)) (Fin 0),
          validation_examples := replicate (length (nets s)) 0\<rparr>)"

text \<open>Lines 121 to 141.\<close>

definition validation_phase ::
  "('p, 't) world \<Rightarrow> ('p, 't) TrainSettings list \<Rightarrow> int \<Rightarrow> int \<Rightarrow>
   't list list \<Rightarrow> 'p state \<Rightarrow> 'p state outcome" where
  "validation_phase w train_settings num_inputs num_labels batches s =
     and_then
       (for_each batches (validate_on_batch w train_settings num_inputs num_labels)
          (validation_reset s))
       (\<lambda>s1. Ok (fold (set_training True) [0..<length (nets s1)] s1))"

text \<open>Lines 143 to 146.\<close>

definition validation_stats :: "'p state \<Rightarrow> 'p state outcome" where
  "validation_stats s =
     and_then
       (assign (AverageLosses (validation_total_losses s) (validation_examples s))
          (\<lambda>v t. t\<lparr>validation_avg_losses := v\<rparr>) s) (\<lambda>s1.
     assign
       (float_truediv_int (py_sum (validation_total_losses s1))
          (py_sum_int (validation_examples s1)))
       (\<lambda>v t. t\<lparr>validation_avg_loss := v\<rparr>) s1)"

subsection \<open>Log, checkpoints and reports\<close>

definition epoch_metrics :: "'p state \<Rightarrow> metrics" where
  "epoch_metrics s =
     \<lparr>TRAIN_LOSS = avg_loss s,
      VAL_LOSS = validation_avg_loss s,
      EPOCH_DURATION_SEC = epoch_duration s,
      EXAMPLES_PER_SEC = examples_per_sec s\<rparr>"

text \<open>Lines 148 to 159.\<close>

definition log_epoch :: "'p state \<Rightarrow> 'p state" where
  "log_epoch s =
     (let s1 = s\<lparr>train_log := train_log s @ [epoch_metrics s]\<rparr>;
          s2 = s1\<lparr>val_improved_marker := []\<rparr>
      in if flt (validation_avg_loss s2) (min_validation_loss s2)
         then s2\<lparr>val_improved_marker := '' **'',
                 min_validation_loss := validation_avg_loss s2\<rparr>
         else s2)"

text \<open>The body of the loop of lines 161 to 167.\<close>

definition checkpoint_net :: "string \<Rightarrow> nat \<Rightarrow> 'p state \<Rightarrow> 'p state" where
  "checkpoint_net out_prefix net_idx s =
     (if flt (validation_avg_losses s ! net_idx) (min_validation_losses s ! net_idx)
      then (emit [Cpu net_idx,
                  Save (best_path out_prefix net_idx) (params (nets s ! net_idx)),
                  Cuda net_idx] s)
             \<lparr>min_validation_losses :=
                (min_validation_losses s)[net_idx := validation_avg_losses s ! net_idx]\<rparr>
      else s)"

definition checkpoints :: "string \<Rightarrow> 'p state \<Rightarrow> 'p state" where
  "checkpoints out_prefix s = fold (checkpoint_net out_prefix) [0..<length (nets s)] s"

text \<open>
  Lines 169 to 176.  The formatting of the line that is printed is not modelled: the
  event holds the epoch, the metrics and the marker that go into it.
\<close>

definition report :: "bool \<Rightarrow> string \<Rightarrow> nat \<Rightarrow> 'p state \<Rightarrow> 'p state" where
  "report print_log log_dir epoch s =
     (let s1 = (if print_log
                then emit [PrintLog epoch (epoch_metrics s) (val_improved_marker s)] s
                else s)
      in if log_dir \<noteq> []
         then emit [TbLogValue ''train_loss'' (avg_loss s1) epoch,
                    TbLogValue ''val_loss'' (validation_avg_loss s1) epoch] s1
         else s1)"

subsection \<open>The run\<close>

text \<open>The body of \<open>for epoch in range(train_settings[0].epochs)\<close> (lines 90 to 176).\<close>

definition epoch_body ::
  "('p, 't) world \<Rightarrow> (nat \<Rightarrow> 't list list) \<Rightarrow> (nat \<Rightarrow> 't list list) \<Rightarrow>
   ('p, 't) TrainSettings list \<Rightarrow> string \<Rightarrow> pyfloat \<Rightarrow> bool \<Rightarrow> string \<Rightarrow> int \<Rightarrow> int \<Rightarrow>
   nat \<Rightarrow> 'p state \<Rightarrow> 'p state outcome" where
  "epoch_body w train_loader val_loader train_settings out_prefix batch_use_prob print_log log_dir
     num_inputs num_labels epoch s =
     and_then
       (training_phase w train_settings batch_use_prob num_inputs num_labels (train_loader epoch) s)
       (\<lambda>s1.
     and_then (training_stats w epoch s1) (\<lambda>s2.
     and_then (validation_phase w train_settings num_inputs num_labels (val_loader epoch) s2) (\<lambda>s3.
     and_then (validation_stats s3) (\<lambda>s4.
     Ok (report print_log log_dir epoch (checkpoints out_prefix (log_epoch s4)))))))"

text \<open>Lines 178 to 181.\<close>

definition save_last :: "string \<Rightarrow> nat \<Rightarrow> 'p state \<Rightarrow> 'p state" where
  "save_last out_prefix net_id s =
     emit [Cpu net_id, Save (last_path out_prefix net_id) (params (nets s ! net_id)), Cuda net_id] s"

text \<open>
  Lines 81 to 86.  The locals that are bound only inside the loop start with
  placeholder values; they are assigned before they are read.
\<close>

definition initial_state :: "'p net list \<Rightarrow> string \<Rightarrow> 'p state" where
  "initial_state nets0 log_dir =
     \<lparr>nets = nets0,
      trace = (if log_dir \<noteq> [] then [TbConfigure log_dir] else []),
      draws = 0,
      train_log = [],
      min_validation_losses = replicate (length nets0) PInf,
      min_validation_loss = PInf,
      running_losses = [],
      train_examples_per_net = [],
      epoch_duration = Fin 0,
      examples_per_sec = Fin 0,
      avg_losses = [],
      avg_loss = Fin 0,
      validation_total_losses = [],
      validation_examples = [],
      validation_avg_losses = [],
      validation_avg_loss = Fin 0,
      val_improved_marker = []\<rparr>"

text \<open>
  The epochs \<open>0, ..., k - 1\<close> of a run, from state \<open>s\<close>.  The iterable
  \<open>train_loader\<close> is iterated once per epoch: \<open>train_loader epoch\<close> is the list of
  batches it yields in that epoch, and likewise for \<open>val_loader\<close>.
\<close>

definition run_epochs ::
  "('p, 't) world \<Rightarrow> (nat \<Rightarrow> 't list list) \<Rightarrow> (nat \<Rightarrow> 't list list) \<Rightarrow>
   ('p, 't) TrainSettings list \<Rightarrow> string \<Rightarrow> pyfloat \<Rightarrow> bool \<Rightarrow> string \<Rightarrow> int \<Rightarrow> int \<Rightarrow>
   nat \<Rightarrow> 'p state \<Rightarrow> 'p state outcome" where
  "run_epochs w train_loader val_loader train_settings out_prefix batch_use_prob print_log log_dir
     num_inputs num_labels k s =
     for_each [0..<k]
       (epoch_body w train_loader val_loader train_settings out_prefix batch_use_prob print_log
          log_dir num_inputs num_labels) s"

text \<open>\<open>TrainModels\<close>; the value returned is the \<open>train_log\<close> of the final state.\<close>

definition TrainModels ::
  "('p, 't) world \<Rightarrow> 'p net list \<Rightarrow> (nat \<Rightarrow> 't list list) \<Rightarrow> (nat \<Rightarrow> 't list list) \<Rightarrow>
   ('p, 't) TrainSettings list \<Rightarrow> string \<Rightarrow> pyfloat \<Rightarrow> bool \<Rightarrow> string \<Rightarrow> 'p state outcome" where
  "TrainModels w nets0 train_loader val_loader train_settings out_prefix batch_use_prob print_log
     log_dir =
     (let s0 = initial_state nets0 log_dir
      in with_value (py_first nets0) s0 (\<lambda>net0.
           let num_inputs = int (length (input_names net0));
               num_labels = int (length (label_names net0))
           in with_value (py_first train_settings) s0 (\<lambda>settings0.
                and_then
                  (run_epochs w train_loader val_loader train_settings out_prefix batch_use_prob
                     print_log log_dir num_inputs num_labels (nat (epochs settings0)) s0)
                  (\<lambda>s. Ok (fold (save_last out_prefix) [0..<length (nets s)] s)))))"

text \<open>
  The value of one entry of \<open>AverageLosses\<close> when the count converts to a float.
\<close>

definition average_value :: "pyfloat \<times> int \<Rightarrow> pyfloat" where
  "average_value xy =
     (case xy of (x, y) \<Rightarrow> if y > 0 then fdiv x (Fin (real_of_int y)) else PInf)"

section \<open>Notions used to state the properties\<close>

text \<open>The state a step ends in, whether it completed or raised.\<close>

fun state_of :: "'s outcome \<Rightarrow> 's" where
  "state_of (Raised e s) = s"
| "state_of (Ok s) = s"

text \<open>\<open>s'\<close> is \<open>s\<close> after more calls, each of which satisfies \<open>Q\<close>.\<close>

definition extends :: "('p event \<Rightarrow> bool) \<Rightarrow> 'p state \<Rightarrow> 'p state \<Rightarrow> bool" where
  "extends Q s s' = (\<exists>evs. trace s' = trace s @ evs \<and> list_all Q evs)"

text \<open>
  The number of examples of a batch, as the loop measures it (the leading dimension of
  the first tensor of the batch), and of a list of batches.
\<close>

definition batch_examples :: "('p, 't) world \<Rightarrow> 't list \<Rightarrow> int" where
  "batch_examples w batch = (case batch of [] \<Rightarrow> 0 | x # _ \<Rightarrow> uint (size0 w x))"

definition dataset_size :: "('p, 't) world \<Rightarrow> 't list list \<Rightarrow> int" where
  "dataset_size w batches = sum_list (map (batch_examples w) batches)"

text \<open>
  The batches \<open>TrainModels\<close> accepts: of the asserted length, with at least one input
  tensor to read the batch size from.
\<close>

definition well_formed_batch :: "int \<Rightarrow> int \<Rightarrow> 't list \<Rightarrow> bool" where
  "well_formed_batch num_inputs num_labels batch =
     (1 \<le> num_inputs \<and> 0 \<le> num_labels \<and> int (length batch) = num_inputs + num_labels + 1)"

text \<open>The events that are gradient computations or optimizer steps, and the file writes.\<close>

fun is_gradient_step :: "'p event \<Rightarrow> bool" where
  "is_gradient_step (Backward i) = True"
| "is_gradient_step (Step i) = True"
| "is_gradient_step _ = False"



text \<open>
  A small concrete run for evaluating the definitions: tensors are lists of numbers, a
  model's learnable state is the number of optimizer steps it has taken, the loss is the
  sum of the outputs, every random draw is \<open>1/2\<close> and the clock advances by one
  second per reading.
\<close>

definition example_world :: "(nat, nat list) world" where
  "example_world =
     \<lparr>forward = (\<lambda>p mode input_vars. input_vars),
      size0 = (\<lambda>x. word_of_nat (length x)),
      uniform = (\<lambda>k. 1 / 2),
      clock = (\<lambda>k. real k)\<rparr>"

definition example_net :: "nat net" where
  "example_net = \<lparr>input_names = [''x''], label_names = [''y''], params = 0, training = True\<rparr>"

definition example_settings :: "int \<Rightarrow> (nat, nat list) TrainSettings" where
  "example_settings n =
     \<lparr>loss = (\<lambda>outputs labels weights. Fin (real (sum_list (map sum_list outputs)))),
      optimizer = (\<lambda>p mode input_vars label_vars weights_var. Suc p),
      epochs = n\<rparr>"

definition example_batch :: "nat list list" where
  "example_batch = [[1, 2], [3, 4], [1, 1]]"

text \<open>
  \<open>s'\<close> is \<open>s\<close> after more calls that satisfy \<open>Q\<close>, with the same models in
  the list, the same training log and the same checkpoint minimums.
\<close>

definition advances :: "('p event \<Rightarrow> bool) \<Rightarrow> 'p state \<Rightarrow> 'p state \<Rightarrow> bool" where
  "advances Q s s' =
     (extends Q s s'
      \<and> length (nets s') = length (nets s)
      \<and> train_log s' = train_log s
      \<and> min_validation_losses s' = min_validation_losses s
      \<and> min_validation_loss s' = min_validation_loss s)"

text \<open>
  Whether the checkpoint loop finds that model \<open>i\<close> improved, and the calls it makes
  for that model.
\<close>

definition improved :: "'p state \<Rightarrow> nat \<Rightarrow> bool" where
  "improved s i = flt (validation_avg_losses s ! i) (min_validation_losses s ! i)"

definition best_events :: "string \<Rightarrow> 'p state \<Rightarrow> nat \<Rightarrow> 'p event list" where
  "best_events out_prefix s i =
     (if improved s i
      then [Cpu i, Save (best_path out_prefix i) (params (nets s ! i)), Cuda i]
      else [])"



text \<open>
  The value \<open>loss_value.data[0]\<close> that the loop computes for a batch, from the settings
  of a model, its learnable state and its mode; and the sum over a list of batches of
  these values, each multiplied by the number of examples of its batch, accumulated from
  zero in the order of the batches.
\<close>

definition batch_loss ::
  "('p, 't) world \<Rightarrow> ('p, 't) TrainSettings \<Rightarrow> 'p \<Rightarrow> bool \<Rightarrow> int \<Rightarrow> int \<Rightarrow> 't list \<Rightarrow> pyfloat" where
  "batch_loss w settings p mode num_inputs num_labels batch =
     loss settings (forward w p mode (py_slice batch 0 num_inputs))
       (py_slice batch num_inputs (num_inputs + num_labels)) (last batch)"

definition accumulate ::
  "('p, 't) world \<Rightarrow> ('p, 't) TrainSettings \<Rightarrow> 'p \<Rightarrow> bool \<Rightarrow> int \<Rightarrow> int \<Rightarrow>
   pyfloat \<Rightarrow> 't list \<Rightarrow> pyfloat" where
  "accumulate w settings p mode num_inputs num_labels acc batch =
     fadd acc (fmul (batch_loss w settings p mode num_inputs num_labels batch)
                 (Fin (real_of_int (batch_examples w batch))))"

definition weighted_loss_sum ::
  "('p, 't) world \<Rightarrow> ('p, 't) TrainSettings \<Rightarrow> 'p \<Rightarrow> bool \<Rightarrow> int \<Rightarrow> int \<Rightarrow>
   't list list \<Rightarrow> pyfloat" where
  "weighted_loss_sum w settings p mode num_inputs num_labels batches =
     foldl (accumulate w settings p mode num_inputs num_labels) (Fin 0) batches"

text \<open>The calls of one model that trains on one batch.\<close>

definition train_events :: "nat \<Rightarrow> 'p event list" where
  "train_events i = [Forward i, Backward i, Step i, ZeroGrad i]"

text \<open>
  A model without its name lists, settings without their epoch count, and a state whose
  models are without their name lists: what is left is all that the loop can depend on
  if it reads the name lists and the epoch count only where \<open>TrainModels\<close> starts.
\<close>

definition forget_names :: "'p net \<Rightarrow> 'p net" where
  "forget_names net = net\<lparr>input_names := [], label_names := []\<rparr>"

definition forget_epochs :: "('p, 't) TrainSettings \<Rightarrow> ('p, 't) TrainSettings" where
  "forget_epochs settings = settings\<lparr>epochs := 0\<rparr>"

definition forget :: "'p state \<Rightarrow> 'p state" where
  "forget s = s\<lparr>nets := map forget_names (nets s)\<rparr>"

section \<open>The weighted mean squared error\<close>

text \<open>
  A tensor: its shape and its elements in row-major order.  The operations of the
  tensor library that \<open>WeightedMSELoss.forward\<close> calls are modelled on such tensors,
  with the arithmetic of \<open>pyfloat\<close> on the elements.
\<close>

record tensor =
  shape :: "nat list"
  elems :: "pyfloat list"

definition well_shaped :: "tensor \<Rightarrow> bool" where
  "well_shaped t = (length (elems t) = prod_list (shape t))"

text \<open>The multi-index of the element at a position, and back.\<close>

fun unravel :: "nat list \<Rightarrow> nat \<Rightarrow> nat list" where
  "unravel [] j = []"
| "unravel (d # ds) j = (j div prod_list ds) # unravel ds (j mod prod_list ds)"

fun ravel :: "nat list \<Rightarrow> nat list \<Rightarrow> nat" where
  "ravel (d # ds) (i # is) = i * prod_list ds + ravel ds is"
| "ravel _ _ = 0"

text \<open>
  Broadcasting: shapes are aligned at their last dimensions, and a dimension of size 1
  is repeated.  \<open>source_index sh target j\<close> is the position in a tensor of shape
  \<open>sh\<close> of the element that lands at position \<open>j\<close> of its expansion to \<open>target\<close>.
\<close>

definition expandable :: "nat list \<Rightarrow> nat list \<Rightarrow> bool" where
  "expandable sh target =
     (length sh \<le> length target
      \<and> list_all2 (\<lambda>d t. d = t \<or> d = 1) sh (drop (length target - length sh) target))"

definition source_index :: "nat list \<Rightarrow> nat list \<Rightarrow> nat \<Rightarrow> nat" where
  "source_index sh target j =
     ravel sh (map2 (\<lambda>d i. if d = 1 then 0 else i) sh
                 (drop (length target - length sh) (unravel target j)))"

text \<open>\<open>t.expand(target)\<close>\<close>

definition expand :: "tensor \<Rightarrow> nat list \<Rightarrow> py_error + tensor" where
  "expand t target =
     (if shape t = target then Inr t
      else if expandable (shape t) target
      then Inr \<lparr>shape = target,
                elems = map (\<lambda>j. elems t ! source_index (shape t) target j)
                          [0..<prod_list target]\<rparr>
      else Inl RuntimeError)"

definition expand_as :: "tensor \<Rightarrow> tensor \<Rightarrow> py_error + tensor" where
  "expand_as t other = expand t (shape other)"

definition broadcast_shapes :: "nat list \<Rightarrow> nat list \<Rightarrow> nat list option" where
  "broadcast_shapes a b =
     (let n = max (length a) (length b);
          a' = replicate (n - length a) 1 @ a;
          b' = replicate (n - length b) 1 @ b
      in if list_all2 (\<lambda>x y. x = y \<or> x = 1 \<or> y = 1) a' b'
         then Some (map2 (\<lambda>x y. if x = 1 then y else x) a' b')
         else None)"

text \<open>An elementwise operation on two tensors, with broadcasting.\<close>

definition pointwise ::
  "(pyfloat \<Rightarrow> pyfloat \<Rightarrow> pyfloat) \<Rightarrow> tensor \<Rightarrow> tensor \<Rightarrow> py_error + tensor" where
  "pointwise f a b =
     (case broadcast_shapes (shape a) (shape b) of
        None \<Rightarrow> Inl RuntimeError
      | Some sh \<Rightarrow>
          (case (expand a sh, expand b sh) of
             (Inr a', Inr b') \<Rightarrow> Inr \<lparr>shape = sh, elems = map2 f (elems a') (elems b')\<rparr>
           | _ \<Rightarrow> Inl RuntimeError))"

definition torch_add :: "tensor \<Rightarrow> tensor \<Rightarrow> py_error + tensor" where
  "torch_add a b = pointwise fadd a b"

definition torch_mul :: "tensor \<Rightarrow> tensor \<Rightarrow> py_error + tensor" where
  "torch_mul a b = pointwise fmul a b"

definition torch_neg :: "tensor \<Rightarrow> tensor" where
  "torch_neg t = t\<lparr>elems := map fneg (elems t)\<rparr>"

text \<open>\<open>torch.pow(t, 2.0)\<close>\<close>

definition torch_pow_2 :: "tensor \<Rightarrow> tensor" where
  "torch_pow_2 t = t\<lparr>elems := map (\<lambda>x. fmul x x) (elems t)\<rparr>"

text \<open>\<open>torch.mean(t)\<close>, as the number it holds; it is not-a-number for an empty tensor.\<close>

definition torch_mean :: "tensor \<Rightarrow> pyfloat" where
  "torch_mean t = fdiv (py_sum (elems t)) (Fin (real (length (elems t))))"

text \<open>\<open>WeightedMSELoss.forward(predicted, labels, weights)\<close>\<close>

definition WeightedMSELoss_forward :: "tensor \<Rightarrow> tensor \<Rightarrow> tensor \<Rightarrow> py_error + pyfloat" where
  "WeightedMSELoss_forward predicted labels weights =
     (case torch_add predicted (torch_neg labels) of
        Inl e \<Rightarrow> Inl e
      | Inr difference \<Rightarrow>
          (let diff_squares = torch_pow_2 difference
           in case expand_as weights labels of
                Inl e \<Rightarrow> Inl e
              | Inr expanded \<Rightarrow>
                  (case torch_mul diff_squares expanded of
                     Inl e \<Rightarrow> Inl e
                   | Inr weighted \<Rightarrow> Inr (torch_mean weighted))))"

subsection \<open>The loss, stated on multi-indices\<close>

text \<open>
  The notions in which the loss is stated.  They follow the description of broadcasting,
  not the code of \<open>expand\<close>: shapes are aligned at their last dimensions, and a
  dimension of size 1 is read at index 0 whatever the index asked for.
\<close>

text \<open>The multi-indices of a shape, in row-major order.\<close>

fun indices :: "nat list \<Rightarrow> nat list list" where
  "indices [] = [[]]"
| "indices (d # ds) = concat (map (\<lambda>i. map ((#) i) (indices ds)) [0..<d])"

text \<open>
  The multi-index at which a tensor of shape \<open>sh\<close> is read when it is broadcast and
  the result is read at the multi-index \<open>idx\<close>.
\<close>

definition broadcast_index :: "nat list \<Rightarrow> nat list \<Rightarrow> nat list" where
  "broadcast_index sh idx =
     map2 (\<lambda>d i. if d = 1 then 0 else i) sh (drop (length idx - length sh) idx)"

text \<open>The element of a broadcast tensor at a multi-index of the result.\<close>

definition element :: "tensor \<Rightarrow> nat list \<Rightarrow> pyfloat" where
  "element t idx = elems t ! ravel (shape t) (broadcast_index (shape t) idx)"

text \<open>
  The weighted squared difference at a multi-index: the square of the difference of the
  prediction and the label there, multiplied by the weight there.
\<close>

definition weighted_square :: "tensor \<Rightarrow> tensor \<Rightarrow> tensor \<Rightarrow> nat list \<Rightarrow> pyfloat" where
  "weighted_square predicted labels weights idx =
     (let difference = fadd (element predicted idx) (fneg (element labels idx))
      in fmul (fmul difference difference) (element weights idx))"

section \<open>Properties\<close>

subsection \<open>Averages and batch splitting\<close>

lemma sequence_map_Inr: "sequence (map (\<lambda>x. Inr (f x)) xs) = Inr (map f xs)"
  by (induction xs) simp_all

lemma sequence_Inr_length: "sequence rs = Inr xs \<Longrightarrow> length xs = length rs"
  by (induction rs arbitrary: xs) (auto split: sum.splits)

lemma overflow_bound_positive: "0 < overflow_bound"
  by (simp add: overflow_bound_def)

lemma overflow_bound_le: "overflow_bound \<le> 2 ^ 1024"
  by (simp add: overflow_bound_def)

lemma py_float_in_range:
  "\<bar>n\<bar> < overflow_bound \<Longrightarrow> py_float n = Inr (Fin (real_of_int n))"
  by (simp add: py_float_def)

text \<open>
  One entry of \<open>AverageLosses\<close>: the guard excludes the division by zero, so the only
  exception is that of a count too large to convert.
\<close>

lemma average_entry_cases:
  "average_entry (x, y) =
     (if overflow_bound \<le> y then Inl OverflowError else Inr (average_value (x, y)))"
  using overflow_bound_positive
  by (auto simp: average_entry_def average_value_def float_truediv_int_def py_float_def
        py_truediv_def)

lemma average_entries_in_range:
  "\<forall>z \<in> set zs. snd z < overflow_bound \<Longrightarrow>
   sequence (map average_entry zs) = Inr (map average_value zs)"
proof (induction zs)
  case Nil
  show ?case by simp
next
  case (Cons z zs)
  obtain x y where z: "z = (x, y)" by (cases z)
  with Cons show ?case by (simp add: average_entry_cases)
qed

lemma average_entries_overflow:
  "\<exists>z \<in> set zs. overflow_bound \<le> snd z \<Longrightarrow>
   sequence (map average_entry zs) = Inl OverflowError"
proof (induction zs)
  case Nil
  then show ?case by simp
next
  case (Cons z zs)
  obtain x y where z: "z = (x, y)" by (cases z)
  show ?case
  proof (cases "overflow_bound \<le> y")
    case True
    with z show ?thesis by (simp add: average_entry_cases)
  next
    case False
    with Cons.prems z have "\<exists>z \<in> set zs. overflow_bound \<le> snd z" by auto
    then have "sequence (map average_entry zs) = Inl OverflowError" by (rule Cons.IH)
    with False z show ?thesis by (simp add: average_entry_cases)
  qed
qed

lemma AverageLosses_in_range:
  assumes "\<forall>z \<in> set (zip ls es). snd z < overflow_bound"
  shows "AverageLosses ls es = Inr (map average_value (zip ls es))"
  using assms by (simp add: AverageLosses_def average_entries_in_range)

lemma AverageLosses_overflow:
  assumes "i < length ls" and "i < length es" and "overflow_bound \<le> es ! i"
  shows "AverageLosses ls es = Inl OverflowError"
proof -
  have "(ls ! i, es ! i) \<in> set (zip ls es)"
    using assms(1,2) by (auto simp: in_set_zip)
  then have "\<exists>z \<in> set (zip ls es). overflow_bound \<le> snd z"
    using assms(3) by force
  then show ?thesis by (simp add: AverageLosses_def average_entries_overflow)
qed

lemma zip_counts_in_range:
  assumes "\<forall>i < min (length ls) (length es). es ! i < overflow_bound"
  shows "\<forall>z \<in> set (zip ls es). snd z < overflow_bound"
  using assms by (auto simp: in_set_zip)

text \<open>
  Claim C6.  When every example count converts to a float, \<open>AverageLosses\<close> returns a
  list; on lists of equal length the list has that length; at every index whose example
  count is positive the entry is the quotient of the summed loss by the count, as
  Python's division gives it, and at every index whose count is 0 it is plus infinity.
  A count at an index of both lists that is too large to convert makes the division
  raise \<open>OverflowError\<close>.  \<open>AverageLosses([10.0], [5])\<close> is \<open>[2.0]\<close> and
  \<open>AverageLosses([10.0], [0])\<close> is \<open>[inf]\<close>.
\<close>

theorem AverageLosses_quotient:
  "((\<forall>y \<in> set total_examples. y < overflow_bound) \<longrightarrow>
      (\<exists>avgs. AverageLosses total_losses total_examples = Inr avgs
         \<and> (length total_losses = length total_examples \<longrightarrow> length avgs = length total_losses)
         \<and> (\<forall>i < length avgs.
               (total_examples ! i > 0 \<longrightarrow>
                  float_truediv_int (total_losses ! i) (total_examples ! i) = Inr (avgs ! i)
                  \<and> avgs ! i = fdiv (total_losses ! i) (Fin (real_of_int (total_examples ! i))))
             \<and> (total_examples ! i = 0 \<longrightarrow> avgs ! i = PInf))))
   \<and> (\<forall>i. i < length total_losses \<and> i < length total_examples
            \<and> overflow_bound \<le> total_examples ! i \<longrightarrow>
          AverageLosses total_losses total_examples = Inl OverflowError)
   \<and> AverageLosses [Fin 10] [5] = Inr [Fin 2]
   \<and> AverageLosses [Fin 10] [0] = Inr [PInf]"
proof (intro conjI impI allI)
  assume range: "\<forall>y \<in> set total_examples. y < overflow_bound"
  then have "\<forall>z \<in> set (zip total_losses total_examples). snd z < overflow_bound"
    by (auto dest: set_zip_rightD)
  then have eq: "AverageLosses total_losses total_examples
                   = Inr (map average_value (zip total_losses total_examples))"
    by (rule AverageLosses_in_range)
  have "\<forall>i < length (map average_value (zip total_losses total_examples)).
               (total_examples ! i > 0 \<longrightarrow>
                  float_truediv_int (total_losses ! i) (total_examples ! i)
                    = Inr (map average_value (zip total_losses total_examples) ! i)
                  \<and> map average_value (zip total_losses total_examples) ! i
                      = fdiv (total_losses ! i) (Fin (real_of_int (total_examples ! i))))
             \<and> (total_examples ! i = 0 \<longrightarrow>
                  map average_value (zip total_losses total_examples) ! i = PInf)"
  proof -
    have r: "\<And>i. i < length total_examples \<Longrightarrow> total_examples ! i < overflow_bound"
      using range by simp
    show ?thesis
      using overflow_bound_positive
      by (auto simp: average_value_def float_truediv_int_def py_float_def py_truediv_def
            dest: r)
  qed
  with eq show "\<exists>avgs. AverageLosses total_losses total_examples = Inr avgs
         \<and> (length total_losses = length total_examples \<longrightarrow> length avgs = length total_losses)
         \<and> (\<forall>i < length avgs.
               (total_examples ! i > 0 \<longrightarrow>
                  float_truediv_int (total_losses ! i) (total_examples ! i) = Inr (avgs ! i)
                  \<and> avgs ! i = fdiv (total_losses ! i) (Fin (real_of_int (total_examples ! i))))
             \<and> (total_examples ! i = 0 \<longrightarrow> avgs ! i = PInf))"
    by simp
next
  fix i
  assume "i < length total_losses \<and> i < length total_examples
            \<and> overflow_bound \<le> total_examples ! i"
  then show "AverageLosses total_losses total_examples = Inl OverflowError"
    by (blast intro: AverageLosses_overflow)
next
  have small: "\<not> overflow_bound \<le> 5" "\<not> overflow_bound \<le> 0"
    by (simp_all add: overflow_bound_def)
  show "AverageLosses [Fin 10] [5] = Inr [Fin 2]"
    by (simp add: AverageLosses_def average_entry_cases average_value_def small)
  show "AverageLosses [Fin 10] [0] = Inr [PInf]"
    by (simp add: AverageLosses_def average_entry_cases average_value_def small)
qed

theorem AverageLosses_quotient_witness:
  "AverageLosses [Fin 10, Fin 3, Fin 7] [5, 0, 2] = Inr [Fin 2, PInf, Fin (7 / 2)]
   \<and> AverageLosses [Fin 1] [2 ^ 1024] = Inl OverflowError"
proof -
  have range: "\<forall>y \<in> set [5, 0, 2 :: int]. y < overflow_bound"
    by (simp add: overflow_bound_def)
  from AverageLosses_quotient [of "[5, 0, 2]" "[Fin 10, Fin 3, Fin 7]"] range
  obtain avgs where avgs: "AverageLosses [Fin 10, Fin 3, Fin 7] [5, 0, 2] = Inr avgs"
    and len: "length avgs = 3"
    and q: "\<forall>i < length avgs.
               ([5, 0, 2 :: int] ! i > 0 \<longrightarrow>
                  avgs ! i = fdiv ([Fin 10, Fin 3, Fin 7] ! i) (Fin (real_of_int ([5, 0, 2] ! i))))
             \<and> ([5, 0, 2 :: int] ! i = 0 \<longrightarrow> avgs ! i = PInf)"
    by auto
  have "avgs ! 0 = Fin 2" "avgs ! 1 = PInf" "avgs ! 2 = Fin (7 / 2)"
    using q len by (simp_all add: nth_Cons')
  then have "avgs = [Fin 2, PInf, Fin (7 / 2)]"
    using len
    by (intro nth_equalityI) (auto simp: less_Suc_eq numeral_3_eq_3 numeral_2_eq_2)
  with avgs have one: "AverageLosses [Fin 10, Fin 3, Fin 7] [5, 0, 2]
                         = Inr [Fin 2, PInf, Fin (7 / 2)]"
    by simp
  have "overflow_bound \<le> 2 ^ 1024" by (rule overflow_bound_le)
  then have big: "(0::nat) < length [Fin 1] \<and> (0::nat) < length [2 ^ 1024 :: int]
                  \<and> overflow_bound \<le> [2 ^ 1024] ! 0"
    by simp
  have two: "AverageLosses [Fin 1] [2 ^ 1024] = Inl OverflowError"
    using AverageLosses_quotient [of "[2 ^ 1024]" "[Fin 1]"] big by blast
  from one two show ?thesis ..
qed

text \<open>
  Claim C10.  On lists of different lengths \<open>AverageLosses\<close> does what it does on
  the two lists cut to the length of the shorter one, so the extra entries of the
  longer list are ignored: a list that it returns has the length of the shorter list; an
  exception that it raises is the \<open>OverflowError\<close> of a count, within that length,
  that is too large to convert, and never comes from the difference of the lengths;
  and it returns a list when every count within that length converts.
\<close>

theorem AverageLosses_shorter_length:
  "AverageLosses total_losses total_examples
     = AverageLosses (take (min (length total_losses) (length total_examples)) total_losses)
         (take (min (length total_losses) (length total_examples)) total_examples)
   \<and> (\<forall>avgs. AverageLosses total_losses total_examples = Inr avgs \<longrightarrow>
          length avgs = min (length total_losses) (length total_examples))
   \<and> (\<forall>e. AverageLosses total_losses total_examples = Inl e \<longrightarrow>
          e = OverflowError
          \<and> (\<exists>i < min (length total_losses) (length total_examples).
                overflow_bound \<le> total_examples ! i))
   \<and> ((\<forall>i < min (length total_losses) (length total_examples).
          total_examples ! i < overflow_bound) \<longrightarrow>
        (\<exists>avgs. AverageLosses total_losses total_examples = Inr avgs))"
proof -
  let ?m = "min (length total_losses) (length total_examples)"
  have "zip (take ?m total_losses) (take ?m total_examples) = zip total_losses total_examples"
    by (simp add: take_zip [symmetric])
  then have cut: "AverageLosses total_losses total_examples
     = AverageLosses (take ?m total_losses) (take ?m total_examples)"
    by (simp add: AverageLosses_def)
  have len: "\<forall>avgs. AverageLosses total_losses total_examples = Inr avgs \<longrightarrow> length avgs = ?m"
    by (auto simp: AverageLosses_def dest: sequence_Inr_length)
  have err: "\<forall>e. AverageLosses total_losses total_examples = Inl e \<longrightarrow>
          e = OverflowError \<and> (\<exists>i < ?m. overflow_bound \<le> total_examples ! i)"
  proof (intro allI impI)
    fix e assume e: "AverageLosses total_losses total_examples = Inl e"
    have ex: "\<exists>z \<in> set (zip total_losses total_examples). overflow_bound \<le> snd z"
    proof (rule ccontr)
      assume "\<not> (\<exists>z \<in> set (zip total_losses total_examples). overflow_bound \<le> snd z)"
      then have "\<forall>z \<in> set (zip total_losses total_examples). snd z < overflow_bound"
        by auto
      then have "AverageLosses total_losses total_examples
                   = Inr (map average_value (zip total_losses total_examples))"
        by (rule AverageLosses_in_range)
      with e show False by simp
    qed
    then have "AverageLosses total_losses total_examples = Inl OverflowError"
      by (simp add: AverageLosses_def average_entries_overflow)
    with e have 1: "e = OverflowError" by simp
    from ex have 2: "\<exists>i < ?m. overflow_bound \<le> total_examples ! i"
      by (auto simp: in_set_zip)
    from 1 2 show "e = OverflowError \<and> (\<exists>i < ?m. overflow_bound \<le> total_examples ! i)" ..
  qed
  have ok: "(\<forall>i < ?m. total_examples ! i < overflow_bound) \<longrightarrow>
        (\<exists>avgs. AverageLosses total_losses total_examples = Inr avgs)"
  proof
    assume "\<forall>i < ?m. total_examples ! i < overflow_bound"
    then have "\<forall>z \<in> set (zip total_losses total_examples). snd z < overflow_bound"
      by (rule zip_counts_in_range)
    then have "AverageLosses total_losses total_examples
                 = Inr (map average_value (zip total_losses total_examples))"
      by (rule AverageLosses_in_range)
    then show "\<exists>avgs. AverageLosses total_losses total_examples = Inr avgs" ..
  qed
  from cut len err ok show ?thesis by blast
qed

theorem AverageLosses_shorter_length_witness:
  "AverageLosses [Fin 10, Fin 3, Fin 7] [5, 0] = Inr [Fin 2, PInf]
   \<and> AverageLosses [Fin 10] [5, 2 ^ 1024] = Inr [Fin 2]
   \<and> AverageLosses [Fin 10, Fin 3] [5, 2 ^ 1024, 1] = Inl OverflowError"
proof -
  note c1 = AverageLosses_shorter_length [of "[Fin 10, Fin 3, Fin 7]" "[5, 0]"]
  note c2 = AverageLosses_shorter_length [of "[Fin 10]" "[5, 2 ^ 1024]"]
  note c3 = AverageLosses_shorter_length [of "[Fin 10, Fin 3]" "[5, 2 ^ 1024, 1]"]
  have small: "\<not> overflow_bound \<le> 5" "\<not> overflow_bound \<le> 0"
    by (simp_all add: overflow_bound_def)
  have cut: "AverageLosses [Fin 10, Fin 3] [5, 0] = Inr [Fin 2, PInf]"
    "AverageLosses [Fin 10] [5] = Inr [Fin 2]"
    by (simp_all add: AverageLosses_def average_entry_cases average_value_def small)
  have 1: "AverageLosses [Fin 10, Fin 3, Fin 7] [5, 0] = Inr [Fin 2, PInf]"
    using c1 cut(1) by simp
  have 2: "AverageLosses [Fin 10] [5, 2 ^ 1024] = Inr [Fin 2]"
    using c2 cut(2) by simp
  have "AverageLosses [Fin 10, Fin 3] [5, 2 ^ 1024, 1] = Inl OverflowError"
    by (rule AverageLosses_overflow [where i = 1]) (simp_all add: overflow_bound_def)
  then obtain e where e: "AverageLosses [Fin 10, Fin 3] [5, 2 ^ 1024, 1] = Inl e" ..
  with c3 have "e = OverflowError" by blast
  with e have 3: "AverageLosses [Fin 10, Fin 3] [5, 2 ^ 1024, 1] = Inl OverflowError"
    by simp
  from 1 2 3 show ?thesis by blast
qed

lemma py_slice_prefix: "0 \<le> k \<Longrightarrow> py_slice xs 0 k = take (nat k) xs"
  by (auto simp: py_slice_def Let_def min_def)

lemma py_slice_middle:
  "0 \<le> a \<Longrightarrow> 0 \<le> k \<Longrightarrow> py_slice xs a (a + k) = take (nat k) (drop (nat a) xs)"
  apply (auto simp: py_slice_def Let_def min_def)
  done

text \<open>
  Claim C3.  A batch of length \<open>num_inputs + num_labels + 1\<close> is split into its
  first \<open>num_inputs\<close> elements, the next \<open>num_labels\<close> elements and its final
  element, which together make up the batch; a batch of any other length fails the
  assertion.
\<close>

theorem DataBatchToVariables_split:
  assumes "0 \<le> num_inputs" and "0 \<le> num_labels"
  shows "(int (length batch) = num_inputs + num_labels + 1 \<longrightarrow>
            (\<exists>input_vars label_vars weights_var.
               DataBatchToVariables batch num_inputs num_labels
                 = Inr (input_vars, label_vars, weights_var)
               \<and> input_vars = take (nat num_inputs) batch
               \<and> label_vars = take (nat num_labels) (drop (nat num_inputs) batch)
               \<and> weights_var = last batch
               \<and> batch = input_vars @ label_vars @ [weights_var]
               \<and> int (length input_vars) = num_inputs
               \<and> int (length label_vars) = num_labels
               \<and> length input_vars + length label_vars + 1 = length batch))
       \<and> (int (length batch) \<noteq> num_inputs + num_labels + 1 \<longrightarrow>
            DataBatchToVariables batch num_inputs num_labels = Inl AssertionError)"
proof -
  have pre: "py_slice batch 0 num_inputs = take (nat num_inputs) batch"
    using assms by (rule_tac py_slice_prefix)
  have mid: "py_slice batch num_inputs (num_inputs + num_labels)
               = take (nat num_labels) (drop (nat num_inputs) batch)"
    using assms by (rule_tac py_slice_middle)
  show ?thesis
  proof (intro conjI impI)
    assume len: "int (length batch) = num_inputs + num_labels + 1"
    have n: "length batch = nat num_inputs + nat num_labels + 1"
      using len assms by linarith
    then have ne: "batch \<noteq> []" by auto
    have rest: "drop (nat num_labels) (drop (nat num_inputs) batch) = [last batch]"
    proof -
      have "length (drop (nat num_inputs + nat num_labels) batch) = 1"
        using n by simp
      then obtain x where x: "drop (nat num_inputs + nat num_labels) batch = [x]"
        by (cases "drop (nat num_inputs + nat num_labels) batch") auto
      have "last batch = last (drop (nat num_inputs + nat num_labels) batch)"
        using n by (simp add: last_drop)
      with x show ?thesis by (simp add: add.commute)
    qed
    have whole: "batch = take (nat num_inputs) batch
                   @ take (nat num_labels) (drop (nat num_inputs) batch) @ [last batch]"
      using rest by (metis append_take_drop_id)
    show "\<exists>input_vars label_vars weights_var.
               DataBatchToVariables batch num_inputs num_labels
                 = Inr (input_vars, label_vars, weights_var)
               \<and> input_vars = take (nat num_inputs) batch
               \<and> label_vars = take (nat num_labels) (drop (nat num_inputs) batch)
               \<and> weights_var = last batch
               \<and> batch = input_vars @ label_vars @ [weights_var]
               \<and> int (length input_vars) = num_inputs
               \<and> int (length label_vars) = num_labels
               \<and> length input_vars + length label_vars + 1 = length batch"
      using len ne whole n assms
      by (simp add: DataBatchToVariables_def Let_def py_last_def pre mid)
  next
    assume "int (length batch) \<noteq> num_inputs + num_labels + 1"
    then show "DataBatchToVariables batch num_inputs num_labels = Inl AssertionError"
      by (simp add: DataBatchToVariables_def)
  qed
qed

theorem DataBatchToVariables_split_witness:
  "DataBatchToVariables [10, 20, 30, 40 :: nat] 2 1 = Inr ([10, 20], [30], 40)
   \<and> DataBatchToVariables [10, 20, 30 :: nat] 2 1 = Inl AssertionError
   \<and> DataBatchToVariables [10, 20, 30, 40, 50 :: nat] 2 1 = Inl AssertionError"
  using DataBatchToVariables_split [of 2 1 "[10, 20, 30, 40 :: nat]"]
        DataBatchToVariables_split [of 2 1 "[10, 20, 30 :: nat]"]
        DataBatchToVariables_split [of 2 1 "[10, 20, 30, 40, 50 :: nat]"]
  by simp

subsection \<open>Batch sizes\<close>

text \<open>A dimension of a tensor converts to a float.\<close>

lemma size_below_overflow: "uint (n :: 63 word) < overflow_bound"
proof -
  have "uint n < 2 ^ 63" using uint_bounded [of n] by simp
  moreover have "(2 :: int) ^ 63 \<le> overflow_bound" by (simp add: overflow_bound_def)
  ultimately show ?thesis by linarith
qed

lemma py_float_size [simp]:
  "py_float (uint (n :: 63 word)) = Inr (Fin (real_of_int (uint n)))"
  using size_below_overflow [of n] by (simp add: py_float_def)

lemma py_float_small: "\<bar>n\<bar> < 2 ^ 63 \<Longrightarrow> py_float n = Inr (Fin (real_of_int n))"
proof -
  assume "\<bar>n\<bar> < 2 ^ 63"
  moreover have "(2 :: int) ^ 63 \<le> overflow_bound" by (simp add: overflow_bound_def)
  ultimately have "\<bar>n\<bar> < overflow_bound" by linarith
  then show ?thesis by (simp add: py_float_def)
qed

lemma float_mul_int_size [simp]:
  "float_mul_int x (uint (n :: 63 word)) = Inr (fmul x (Fin (real_of_int (uint n))))"
  by (simp add: float_mul_int_def)

subsection \<open>Sequencing and loops\<close>

lemma and_then_simps [simp]:
  "and_then (Ok s) f = f s"
  "and_then (Raised e s) f = Raised e s"
  by (simp_all add: and_then_def)

lemma with_value_simps [simp]:
  "with_value (Inr v) s f = f v"
  "with_value (Inl e) s f = Raised e s"
  by (simp_all add: with_value_def)

lemma assign_simps [simp]:
  "assign (Inr v) upd s = Ok (upd v s)"
  "assign (Inl e) upd s = Raised e s"
  by (simp_all add: assign_def)

lemma for_each_append:
  "for_each (xs @ ys) body s = and_then (for_each xs body s) (for_each ys body)"
  by (induction xs arbitrary: s) (auto simp: and_then_def split: outcome.splits)

lemma for_each_invariant:
  assumes "\<And>x s. x \<in> set xs \<Longrightarrow> P s \<Longrightarrow> P (state_of (body x s))"
    and "P s"
  shows "P (state_of (for_each xs body s))"
  using assms
proof (induction xs arbitrary: s)
  case Nil
  then show ?case by simp
next
  case (Cons x xs)
  have px: "P (state_of (body x s))" using Cons.prems by simp
  show ?case
  proof (cases "body x s")
    case (Raised e s')
    with px show ?thesis by simp
  next
    case (Ok s')
    with px have "P s'" by simp
    then have "P (state_of (for_each xs body s'))"
      using Cons.IH Cons.prems(1) by simp
    with Ok show ?thesis by simp
  qed
qed

lemma extends_refl: "extends Q s s"
  by (simp add: extends_def)

lemma extends_trans: "extends Q s s' \<Longrightarrow> extends Q s' s'' \<Longrightarrow> extends Q s s''"
  by (auto simp: extends_def)

lemma extends_emit: "list_all Q evs \<Longrightarrow> extends Q s (emit evs s)"
  by (simp add: extends_def emit_def)

lemma extends_same_trace: "trace s' = trace s \<Longrightarrow> extends Q s s'"
  by (simp add: extends_def)

subsection \<open>What the phases leave unchanged\<close>

lemma advances_refl: "advances Q s s"
  by (simp add: advances_def extends_refl)

lemma advances_trans: "advances Q s s' \<Longrightarrow> advances Q s' s'' \<Longrightarrow> advances Q s s''"
  by (auto simp: advances_def intro: extends_trans)

lemma for_each_advances:
  assumes "\<And>x t. x \<in> set xs \<Longrightarrow> advances Q t (state_of (body x t))"
  shows "advances Q s (state_of (for_each xs body s))"
proof (rule for_each_invariant [where P = "advances Q s"])
  show "advances Q s s" by (rule advances_refl)
next
  fix x t assume "x \<in> set xs" and "advances Q s t"
  then show "advances Q s (state_of (body x t))"
    using assms advances_trans by blast
qed

lemma and_then_advances:
  assumes "advances Q s (state_of r)" and "\<And>t. advances Q t (state_of (f t))"
  shows "advances Q s (state_of (and_then r f))"
proof (cases r)
  case (Raised e t)
  with assms(1) show ?thesis by simp
next
  case (Ok t)
  with assms(1) have "advances Q s t" by simp
  moreover have "advances Q t (state_of (f t))" by (rule assms(2))
  ultimately show ?thesis using Ok by (auto intro: advances_trans)
qed

lemma fold_advances:
  assumes "\<And>x t. advances Q t (g x t)"
  shows "advances Q s (fold g xs s)"
proof (induction xs arbitrary: s)
  case Nil
  show ?case by (simp add: advances_refl)
next
  case (Cons x xs)
  have "advances Q s (g x s)" by (rule assms)
  moreover have "advances Q (g x s) (fold g xs (g x s))" by (rule Cons.IH)
  ultimately show ?case by (auto intro: advances_trans)
qed

lemma advances_emit:
  "list_all Q evs \<Longrightarrow> advances Q s (emit evs s)"
  by (simp add: advances_def extends_def emit_def)

lemma train_net_on_batch_advances:
  assumes "\<And>i. Q (Forward i)" "\<And>i. Q (Backward i)" "\<And>i. Q (Step i)" "\<And>i. Q (ZeroGrad i)"
  shows "advances Q s (state_of (train_net_on_batch w ts p iv lv wv i s))"
  using assms
  by (auto simp: train_net_on_batch_def Let_def py_index_def py_first_def advances_def
        extends_def emit_def split: list.splits)

lemma train_on_batch_advances:
  assumes "\<And>i. Q (Forward i)" "\<And>i. Q (Backward i)" "\<And>i. Q (Step i)" "\<And>i. Q (ZeroGrad i)"
  shows "advances Q s (state_of (train_on_batch w ts p ni nl b s))"
proof (cases "DataBatchToVariables b ni nl")
  case (Inl e)
  then show ?thesis by (simp add: train_on_batch_def advances_refl)
next
  case (Inr v)
  obtain iv lv wv where v: "v = (iv, lv, wv)" by (cases v)
  show ?thesis
    using Inr v assms
    by (simp add: train_on_batch_def for_each_advances train_net_on_batch_advances)
qed

lemma epoch_reset_advances:
  assumes "\<And>i. Q (ZeroGrad i)"
  shows "advances Q s (epoch_reset ts s)"
  using assms
  by (simp add: epoch_reset_def advances_def extends_def emit_def list_all_iff)

lemma training_phase_advances:
  assumes "\<And>i. Q (Forward i)" "\<And>i. Q (Backward i)" "\<And>i. Q (Step i)" "\<And>i. Q (ZeroGrad i)"
  shows "advances Q s (state_of (training_phase w ts p ni nl bs s))"
  unfolding training_phase_def
  by (rule advances_trans [OF epoch_reset_advances for_each_advances])
     (simp_all add: assms train_on_batch_advances)

lemma training_stats_advances: "advances Q s (state_of (training_stats w e s))"
  by (auto simp: training_stats_def Let_def assign_def with_value_def and_then_def
        advances_def extends_def split: sum.splits)

lemma set_training_advances:
  assumes "\<And>i. Q (EvalCall i)" "\<And>i. Q (TrainCall i)"
  shows "advances Q s (set_training b i s)"
  using assms by (simp add: set_training_def advances_def extends_def emit_def)

lemma validate_net_on_batch_advances:
  assumes "\<And>i. Q (Forward i)"
  shows "advances Q s (state_of (validate_net_on_batch w ts iv lv wv i s))"
  using assms
  by (auto simp: validate_net_on_batch_def Let_def py_index_def py_first_def advances_def
        extends_def emit_def split: list.splits)

lemma validate_on_batch_advances:
  assumes "\<And>i. Q (Forward i)"
  shows "advances Q s (state_of (validate_on_batch w ts ni nl b s))"
proof (cases "DataBatchToVariables b ni nl")
  case (Inl e)
  then show ?thesis by (simp add: validate_on_batch_def advances_refl)
next
  case (Inr v)
  obtain iv lv wv where v: "v = (iv, lv, wv)" by (cases v)
  show ?thesis
    using Inr v assms
    by (simp add: validate_on_batch_def for_each_advances validate_net_on_batch_advances)
qed

lemma validation_reset_advances:
  assumes "\<And>i. Q (EvalCall i)" "\<And>i. Q (TrainCall i)"
  shows "advances Q s (validation_reset s)"
proof -
  let ?s1 = "s\<lparr>validation_total_losses := replicate (length (nets s)) (Fin 0),
               validation_examples := replicate (length (nets s)) 0\<rparr>"
  have "advances Q s ?s1" by (simp add: advances_def extends_def)
  moreover have "advances Q ?s1 (fold (set_training False) [0..<length (nets s)] ?s1)"
    by (rule fold_advances) (simp add: assms set_training_advances)
  ultimately show ?thesis
    unfolding validation_reset_def by (rule advances_trans)
qed

lemma validation_phase_advances:
  assumes "\<And>i. Q (Forward i)" "\<And>i. Q (EvalCall i)" "\<And>i. Q (TrainCall i)"
  shows "advances Q s (state_of (validation_phase w ts ni nl bs s))"
  unfolding validation_phase_def
proof (rule and_then_advances)
  show "advances Q s (state_of (for_each bs (validate_on_batch w ts ni nl) (validation_reset s)))"
    by (rule advances_trans [OF validation_reset_advances for_each_advances])
       (simp_all add: assms validate_on_batch_advances)
next
  fix t
  show "advances Q t (state_of (Ok (fold (set_training True) [0..<length (nets t)] t)))"
    by (simp add: fold_advances assms set_training_advances)
qed

lemma validation_stats_advances: "advances Q s (state_of (validation_stats s))"
  by (auto simp: validation_stats_def assign_def with_value_def and_then_def
        advances_def extends_def split: sum.splits)

subsection \<open>Training with probability 0\<close>

lemma train_net_never:
  assumes "0 \<le> uniform w (draws s)"
  shows "train_net_on_batch w ts (Fin 0) iv lv wv i s = Ok (s\<lparr>draws := Suc (draws s)\<rparr>)"
  using assms by (simp add: train_net_on_batch_def Let_def)

lemma train_nets_never:
  assumes "\<forall>k. 0 \<le> uniform w k"
  shows "for_each is (train_net_on_batch w ts (Fin 0) iv lv wv) s
           = Ok (s\<lparr>draws := draws s + length is\<rparr>)"
  using assms
  by (induction "is" arbitrary: s) (simp_all add: train_net_never)

lemma train_on_batch_never:
  assumes "\<forall>k. 0 \<le> uniform w k"
  shows "\<exists>d. state_of (train_on_batch w ts (Fin 0) ni nl b s) = s\<lparr>draws := d\<rparr>"
proof (cases "DataBatchToVariables b ni nl")
  case (Inl e)
  then have "state_of (train_on_batch w ts (Fin 0) ni nl b s) = s\<lparr>draws := draws s\<rparr>"
    by (simp add: train_on_batch_def)
  then show ?thesis ..
next
  case (Inr v)
  then show ?thesis
    using assms by (cases v) (auto simp add: train_on_batch_def train_nets_never)
qed

lemma train_batches_never:
  assumes "\<forall>k. 0 \<le> uniform w k"
  shows "\<exists>d. state_of (for_each bs (train_on_batch w ts (Fin 0) ni nl) s) = s\<lparr>draws := d\<rparr>"
proof -
  have "(\<lambda>t. \<exists>d. t = s\<lparr>draws := d\<rparr>) (state_of (for_each bs (train_on_batch w ts (Fin 0) ni nl) s))"
  proof (rule for_each_invariant)
    show "\<exists>d. s = s\<lparr>draws := d\<rparr>" by (rule exI [of _ "draws s"]) simp
  next
    fix x t assume "\<exists>d. t = s\<lparr>draws := d\<rparr>"
    then obtain d where t: "t = s\<lparr>draws := d\<rparr>" ..
    obtain d' where "state_of (train_on_batch w ts (Fin 0) ni nl x t) = t\<lparr>draws := d'\<rparr>"
      using train_on_batch_never [OF assms] by blast
    with t show "\<exists>d. state_of (train_on_batch w ts (Fin 0) ni nl x t) = s\<lparr>draws := d\<rparr>"
      by auto
  qed
  then show ?thesis .
qed

subsection \<open>Checkpoint paths\<close>







subsection \<open>The checkpoint loop\<close>

lemma checkpoint_net_fields [simp]:
  "nets (checkpoint_net out_prefix i s) = nets s"
  "validation_avg_losses (checkpoint_net out_prefix i s) = validation_avg_losses s"
  "train_log (checkpoint_net out_prefix i s) = train_log s"
  "avg_loss (checkpoint_net out_prefix i s) = avg_loss s"
  "validation_avg_loss (checkpoint_net out_prefix i s) = validation_avg_loss s"
  "epoch_duration (checkpoint_net out_prefix i s) = epoch_duration s"
  "examples_per_sec (checkpoint_net out_prefix i s) = examples_per_sec s"
  "val_improved_marker (checkpoint_net out_prefix i s) = val_improved_marker s"
  "length (min_validation_losses (checkpoint_net out_prefix i s)) = length (min_validation_losses s)"
  by (simp_all add: checkpoint_net_def emit_def)



lemma fold_checkpoint_fields:
  "train_log (fold (checkpoint_net out_prefix) xs s) = train_log s
   \<and> avg_loss (fold (checkpoint_net out_prefix) xs s) = avg_loss s
   \<and> validation_avg_loss (fold (checkpoint_net out_prefix) xs s) = validation_avg_loss s
   \<and> epoch_duration (fold (checkpoint_net out_prefix) xs s) = epoch_duration s
   \<and> examples_per_sec (fold (checkpoint_net out_prefix) xs s) = examples_per_sec s
   \<and> val_improved_marker (fold (checkpoint_net out_prefix) xs s) = val_improved_marker s"
  by (induction xs arbitrary: s) simp_all

lemma checkpoints_metrics [simp]:
  "train_log (checkpoints out_prefix s) = train_log s"
  "epoch_metrics (checkpoints out_prefix s) = epoch_metrics s"
  by (simp_all add: checkpoints_def epoch_metrics_def fold_checkpoint_fields)

lemma log_epoch_fields [simp]:
  "nets (log_epoch s) = nets s"
  "trace (log_epoch s) = trace s"
  "min_validation_losses (log_epoch s) = min_validation_losses s"
  "validation_avg_losses (log_epoch s) = validation_avg_losses s"
  "train_log (log_epoch s) = train_log s @ [epoch_metrics s]"
  "epoch_metrics (log_epoch s) = epoch_metrics s"
  by (simp_all add: log_epoch_def Let_def epoch_metrics_def)

lemma report_fields [simp]:
  "nets (report print_log log_dir epoch s) = nets s"
  "min_validation_losses (report print_log log_dir epoch s) = min_validation_losses s"
  "validation_avg_losses (report print_log log_dir epoch s) = validation_avg_losses s"
  "train_log (report print_log log_dir epoch s) = train_log s"
  "epoch_metrics (report print_log log_dir epoch s) = epoch_metrics s"
  by (simp_all add: report_def Let_def emit_def epoch_metrics_def)


lemma improved_log_epoch [simp]: "improved (log_epoch s) i = improved s i"
  by (simp add: improved_def)

lemma best_events_log_epoch [simp]:
  "best_events out_prefix (log_epoch s) = best_events out_prefix s"
  by (rule ext) (simp add: best_events_def)

subsection \<open>One epoch\<close>

lemma epoch_body_Ok:
  assumes "epoch_body w train_loader val_loader ts out_prefix p print_log log_dir ni nl k s = Ok s'"
  obtains s1 s2 s3 s4 where
    "training_phase w ts p ni nl (train_loader k) s = Ok s1"
    "training_stats w k s1 = Ok s2"
    "validation_phase w ts ni nl (val_loader k) s2 = Ok s3"
    "validation_stats s3 = Ok s4"
    "s' = report print_log log_dir k (checkpoints out_prefix (log_epoch s4))"
  using assms
  by (auto simp: epoch_body_def and_then_def split: outcome.splits)

lemma epoch_body_Raised:
  assumes "epoch_body w train_loader val_loader ts out_prefix p print_log log_dir ni nl k s
             = Raised e s'"
    and "\<And>t. advances Q t (state_of (training_phase w ts p ni nl (train_loader k) t))"
        "\<And>i. Q (Forward i)" "\<And>i. Q (EvalCall i)" "\<And>i. Q (TrainCall i)"
  shows "advances Q s s'"
proof -
  let ?f = "\<lambda>s3. and_then (validation_stats s3) (\<lambda>s4.
     Ok (report print_log log_dir k (checkpoints out_prefix (log_epoch s4))))"
  have 1: "advances Q s (state_of (training_phase w ts p ni nl (train_loader k) s))"
    by (rule assms(2))
  show ?thesis
  proof (cases "training_phase w ts p ni nl (train_loader k) s")
    case (Raised e1 t)
    with assms(1) 1 show ?thesis by (simp add: epoch_body_def)
  next
    case Ok1: (Ok s1)
    have 2: "advances Q s1 (state_of (training_stats w k s1))"
      by (rule training_stats_advances)
    show ?thesis
    proof (cases "training_stats w k s1")
      case (Raised e2 t)
      with assms(1) 1 2 Ok1 show ?thesis
        by (auto simp: epoch_body_def intro: advances_trans)
    next
      case Ok2: (Ok s2)
      have 3: "advances Q s2 (state_of (validation_phase w ts ni nl (val_loader k) s2))"
        by (rule validation_phase_advances) (rule assms)+
      show ?thesis
      proof (cases "validation_phase w ts ni nl (val_loader k) s2")
        case (Raised e3 t)
        with assms(1) 1 2 3 Ok1 Ok2 show ?thesis
          by (auto simp: epoch_body_def intro: advances_trans)
      next
        case Ok3: (Ok s3)
        have 4: "advances Q s3 (state_of (validation_stats s3))"
          by (rule validation_stats_advances)
        show ?thesis
        proof (cases "validation_stats s3")
          case (Raised e4 t)
          with assms(1) 1 2 3 4 Ok1 Ok2 Ok3 show ?thesis
            by (auto simp: epoch_body_def intro: advances_trans)
        next
          case (Ok s4)
          with assms(1) Ok1 Ok2 Ok3 show ?thesis
            by (simp add: epoch_body_def)
        qed
      qed
    qed
  qed
qed

lemma epoch_body_phases:
  assumes "epoch_body w train_loader val_loader ts out_prefix p print_log log_dir ni nl k s = Ok s'"
    and "\<And>t. advances Q t (state_of (training_phase w ts p ni nl (train_loader k) t))"
        "\<And>i. Q (Forward i)" "\<And>i. Q (EvalCall i)" "\<And>i. Q (TrainCall i)"
  obtains s4 where "advances Q s s4"
    "s' = report print_log log_dir k (checkpoints out_prefix (log_epoch s4))"
proof -
  from assms(1) obtain s1 s2 s3 s4 where
    p: "training_phase w ts p ni nl (train_loader k) s = Ok s1"
       "training_stats w k s1 = Ok s2"
       "validation_phase w ts ni nl (val_loader k) s2 = Ok s3"
       "validation_stats s3 = Ok s4"
       "s' = report print_log log_dir k (checkpoints out_prefix (log_epoch s4))"
    by (rule epoch_body_Ok)
  have "advances Q s s1"
    using assms(2) [of s] p(1) by simp
  moreover have "advances Q s1 s2"
    using training_stats_advances [of Q s1 w k] p(2) by simp
  moreover have "advances Q s2 s3"
    using validation_phase_advances [of Q s2 w ts ni nl "val_loader k"] assms(3-5) p(3) by simp
  moreover have "advances Q s3 s4"
    using validation_stats_advances [of Q s3] p(4) by simp
  ultimately have "advances Q s s4" by (blast intro: advances_trans)
  then show ?thesis using p(5) that by blast
qed

subsection \<open>Checkpoint minimums along a run\<close>



lemma run_epochs_Suc:
  "run_epochs w train_loader val_loader ts out_prefix p print_log log_dir ni nl (Suc k) s
     = and_then
         (run_epochs w train_loader val_loader ts out_prefix p print_log log_dir ni nl k s)
         (epoch_body w train_loader val_loader ts out_prefix p print_log log_dir ni nl k)"
  by (simp add: run_epochs_def for_each_append and_then_def split: outcome.splits)

lemma run_epochs_0 [simp]:
  "run_epochs w train_loader val_loader ts out_prefix p print_log log_dir ni nl 0 s = Ok s"
  by (simp add: run_epochs_def)





subsection \<open>The calls of a whole run\<close>

lemma fold_extends:
  assumes "\<And>x t. extends Q t (g x t)"
  shows "extends Q s (fold g xs s)"
proof (induction xs arbitrary: s)
  case Nil
  show ?case by (simp add: extends_refl)
next
  case (Cons x xs)
  have "extends Q s (g x s)" by (rule assms)
  moreover have "extends Q (g x s) (fold g xs (g x s))" by (rule Cons.IH)
  ultimately show ?case by (auto intro: extends_trans)
qed

lemma checkpoints_extends:
  assumes "\<And>i. Q (Cpu i)" "\<And>i. Q (Cuda i)" "\<And>i q. Q (Save (best_path out_prefix i) q)"
  shows "extends Q s (checkpoints out_prefix s)"
  unfolding checkpoints_def
proof (rule fold_extends)
  fix x t
  show "extends Q t (checkpoint_net out_prefix x t)"
    using assms by (simp add: checkpoint_net_def extends_def emit_def)
qed

lemma fold_checkpoint_nets: "nets (fold (checkpoint_net out_prefix) xs s) = nets s"
  by (induction xs arbitrary: s) simp_all

lemma report_extends:
  assumes "\<And>k m x. Q (PrintLog k m x)" "\<And>n v k. Q (TbLogValue n v k)"
  shows "extends Q s (report print_log log_dir epoch s)"
  using assms by (simp add: report_def Let_def extends_def emit_def)

text \<open>
  The calls of one epoch satisfy \<open>Q\<close> when the calls of its training phase do and
  \<open>Q\<close> holds of the calls the rest of the epoch can make.
\<close>

lemma epoch_body_extends:
  assumes train: "\<And>t. advances Q t (state_of (training_phase w ts p ni nl (train_loader k) t))"
    and q: "\<And>i. Q (Forward i)" "\<And>i. Q (EvalCall i)" "\<And>i. Q (TrainCall i)"
    and c: "\<And>i. Q (Cpu i)" "\<And>i. Q (Cuda i)" "\<And>i q. Q (Save (best_path out_prefix i) q)"
    and r: "\<And>k m x. Q (PrintLog k m x)" "\<And>n v k. Q (TbLogValue n v k)"
  shows "extends Q s
           (state_of (epoch_body w train_loader val_loader ts out_prefix p print_log log_dir
                        ni nl k s))
         \<and> length (nets (state_of (epoch_body w train_loader val_loader ts out_prefix p print_log
                        log_dir ni nl k s))) = length (nets s)"
proof (cases "epoch_body w train_loader val_loader ts out_prefix p print_log log_dir ni nl k s")
  case (Raised e s')
  then have "advances Q s s'"
    by (rule epoch_body_Raised) (rule train q)+
  with Raised show ?thesis by (simp add: advances_def)
next
  case (Ok s')
  then obtain s4 where adv: "advances Q s s4"
    and s': "s' = report print_log log_dir k (checkpoints out_prefix (log_epoch s4))"
    by (rule epoch_body_phases [where Q = Q]) (rule train q)+
  have "extends Q s s4" using adv by (simp add: advances_def)
  moreover have "extends Q s4 (log_epoch s4)" by (simp add: extends_same_trace)
  moreover have "extends Q (log_epoch s4) (checkpoints out_prefix (log_epoch s4))"
    by (rule checkpoints_extends) (rule c)+
  moreover have "extends Q (checkpoints out_prefix (log_epoch s4)) s'"
    unfolding s' by (rule report_extends) (rule r)+
  ultimately have "extends Q s s'" by (blast intro: extends_trans)
  moreover have "length (nets s') = length (nets s)"
    using adv s' by (simp add: advances_def checkpoints_def fold_checkpoint_nets)
  ultimately show ?thesis using Ok by simp
qed

lemma run_epochs_extends:
  assumes train: "\<And>k t. advances Q t (state_of (training_phase w ts p ni nl (train_loader k) t))"
    and q: "\<And>i. Q (Forward i)" "\<And>i. Q (EvalCall i)" "\<And>i. Q (TrainCall i)"
    and c: "\<And>i. Q (Cpu i)" "\<And>i. Q (Cuda i)" "\<And>i q. Q (Save (best_path out_prefix i) q)"
    and r: "\<And>k m x. Q (PrintLog k m x)" "\<And>n v k. Q (TbLogValue n v k)"
  shows "extends Q s
           (state_of (run_epochs w train_loader val_loader ts out_prefix p print_log log_dir
                        ni nl k s))
         \<and> length (nets (state_of (run_epochs w train_loader val_loader ts out_prefix p print_log
                        log_dir ni nl k s))) = length (nets s)"
proof (induction k)
  case 0
  show ?case by (simp add: extends_refl)
next
  case (Suc k)
  let ?r = "run_epochs w train_loader val_loader ts out_prefix p print_log log_dir ni nl k s"
  show ?case
  proof (cases ?r)
    case (Raised e t)
    with Suc.IH show ?thesis by (simp add: run_epochs_Suc)
  next
    case (Ok t)
    with Suc.IH have t: "extends Q s t" "length (nets t) = length (nets s)" by simp_all
    have "extends Q t
           (state_of (epoch_body w train_loader val_loader ts out_prefix p print_log log_dir
                        ni nl k t))
         \<and> length (nets (state_of (epoch_body w train_loader val_loader ts out_prefix p print_log
                        log_dir ni nl k t))) = length (nets t)"
      by (rule epoch_body_extends) (rule train q c r)+
    with t Ok show ?thesis
      by (auto simp: run_epochs_Suc intro: extends_trans)
  qed
qed

subsection \<open>The final checkpoints\<close>




lemma TrainModels_Ok:
  assumes "TrainModels w nets0 train_loader val_loader ts out_prefix p print_log log_dir = Ok s"
  obtains s_e where "nets0 \<noteq> []" "ts \<noteq> []"
    "run_epochs w train_loader val_loader ts out_prefix p print_log log_dir
       (int (length (input_names (hd nets0)))) (int (length (label_names (hd nets0))))
       (nat (epochs (hd ts))) (initial_state nets0 log_dir) = Ok s_e"
    "s = fold (save_last out_prefix) [0..<length (nets s_e)] s_e"
  using assms
  by (auto simp: TrainModels_def Let_def py_first_def with_value_def and_then_def
        split: list.splits outcome.splits)

subsection \<open>Loops that complete\<close>

lemma for_each_snoc:
  "for_each (xs @ [x]) body s = and_then (for_each xs body s) (body x)"
  by (simp add: for_each_append and_then_def split: outcome.splits)

text \<open>
  An invariant of a loop that completes, indexed by the elements handled so far.
\<close>

lemma for_each_Ok_induct:
  assumes "for_each xs body s = Ok t"
    and "P [] s"
    and "\<And>ys x u u'. P ys u \<Longrightarrow> body x u = Ok u' \<Longrightarrow> P (ys @ [x]) u'"
  shows "P xs t"
  using assms(1)
proof (induction xs arbitrary: t rule: rev_induct)
  case Nil
  with assms(2) show ?case by simp
next
  case (snoc x xs)
  from snoc.prems obtain u where u: "for_each xs body s = Ok u" and b: "body x u = Ok t"
    by (auto simp: for_each_snoc and_then_def split: outcome.splits)
  from snoc.IH [OF u] have "P xs u" .
  then show ?case using b by (rule assms(3))
qed

lemma for_each_upt_Ok_induct:
  assumes "for_each [0..<n] body s = Ok t"
    and "P 0 s"
    and "\<And>k u u'. k < n \<Longrightarrow> P k u \<Longrightarrow> body k u = Ok u' \<Longrightarrow> P (Suc k) u'"
  shows "P n t"
  using assms(1,3)
proof (induction n arbitrary: t)
  case 0
  with assms(2) show ?case by simp
next
  case (Suc n)
  from Suc.prems(1) obtain u where u: "for_each [0..<n] body s = Ok u" and b: "body n u = Ok t"
    by (auto simp: for_each_snoc and_then_def split: outcome.splits)
  have "P n u"
    using u Suc.prems(2) by (rule Suc.IH) simp_all
  then show ?case using b Suc.prems(2) [of n u t] by simp
qed

subsection \<open>The validation phase, when it completes\<close>

lemma set_training_upto:
  "k \<le> length (nets s) \<Longrightarrow>
   (let t = fold (set_training b) [0..<k] s
    in trace t = trace s @ map (\<lambda>i. if b then TrainCall i else EvalCall i) [0..<k]
       \<and> length (nets t) = length (nets s)
       \<and> (\<forall>i < length (nets s).
             nets t ! i = (if i < k then (nets s ! i)\<lparr>training := b\<rparr> else nets s ! i))
       \<and> draws t = draws s
       \<and> validation_examples t = validation_examples s
       \<and> validation_total_losses t = validation_total_losses s)"
proof (induction k)
  case 0
  show ?case by simp
next
  case (Suc k)
  then show ?case
    by (auto simp: Let_def set_training_def emit_def nth_list_update less_Suc_eq)
qed

lemma set_training_all:
  "trace (fold (set_training b) [0..<length (nets s)] s)
     = trace s @ map (\<lambda>i. if b then TrainCall i else EvalCall i) [0..<length (nets s)]"
  "nets (fold (set_training b) [0..<length (nets s)] s) = map (\<lambda>n. n\<lparr>training := b\<rparr>) (nets s)"
  "draws (fold (set_training b) [0..<length (nets s)] s) = draws s"
  "validation_examples (fold (set_training b) [0..<length (nets s)] s) = validation_examples s"
  "validation_total_losses (fold (set_training b) [0..<length (nets s)] s)
     = validation_total_losses s"
proof -
  note u = set_training_upto [of "length (nets s)" s b, simplified Let_def]
  show "trace (fold (set_training b) [0..<length (nets s)] s)
     = trace s @ map (\<lambda>i. if b then TrainCall i else EvalCall i) [0..<length (nets s)]"
    using u by simp
  show "nets (fold (set_training b) [0..<length (nets s)] s) = map (\<lambda>n. n\<lparr>training := b\<rparr>) (nets s)"
    using u by (intro nth_equalityI) simp_all
  show "draws (fold (set_training b) [0..<length (nets s)] s) = draws s"
    using u by simp
  show "validation_examples (fold (set_training b) [0..<length (nets s)] s) = validation_examples s"
    using u by simp
  show "validation_total_losses (fold (set_training b) [0..<length (nets s)] s)
     = validation_total_losses s"
    using u by simp
qed

lemma validate_net_on_batch_Ok:
  assumes "validate_net_on_batch w ts iv lv wv i s = Ok t"
  shows "i < length ts \<and> iv \<noteq> []
    \<and> nets t = nets s \<and> draws t = draws s
    \<and> trace t = trace s @ [Forward i]
    \<and> validation_examples t
        = (validation_examples s)[i := validation_examples s ! i + uint (size0 w (hd iv))]
    \<and> validation_total_losses t
        = (validation_total_losses s)
            [i := fadd (validation_total_losses s ! i)
                    (fmul (loss (ts ! i)
                             (forward w (params (nets s ! i)) (training (nets s ! i)) iv) lv wv)
                       (Fin (real_of_int (uint (size0 w (hd iv))))))]"
  using assms
  by (auto simp: validate_net_on_batch_def Let_def py_index_def py_first_def with_value_def
        emit_def split: if_splits list.splits)

lemma DataBatchToVariables_Inr:
  assumes "DataBatchToVariables b ni nl = Inr (iv, lv, wv)"
  shows "iv = py_slice b 0 ni" "lv = py_slice b ni (ni + nl)" "wv = last b" "b \<noteq> []"
    "int (length b) = ni + nl + 1"
  using assms
  by (auto simp: DataBatchToVariables_def Let_def py_last_def split: if_splits)

lemma hd_py_slice:
  assumes "0 \<le> ni" and "py_slice b 0 ni \<noteq> []"
  shows "hd (py_slice b 0 ni) = hd b" and "b \<noteq> []" and "1 \<le> ni"
proof -
  have eq: "py_slice b 0 ni = take (nat ni) b" using assms(1) by (rule py_slice_prefix)
  with assms(2) have "take (nat ni) b \<noteq> []" by simp
  then have "nat ni > 0" and ne: "b \<noteq> []" by (auto simp: take_eq_Nil)
  then show "hd (py_slice b 0 ni) = hd b" and "1 \<le> ni" by (simp_all add: eq hd_take)
  show "b \<noteq> []" by (rule ne)
qed

lemma batch_examples_hd: "b \<noteq> [] \<Longrightarrow> batch_examples w b = uint (size0 w (hd b))"
  by (cases b) (simp_all add: batch_examples_def)

lemma validate_nets_Ok:
  assumes "for_each [0..<n] (validate_net_on_batch w ts iv lv wv) s = Ok t"
  shows "nets t = nets s \<and> draws t = draws s
    \<and> trace t = trace s @ map Forward [0..<n]
    \<and> length (validation_examples t) = length (validation_examples s)
    \<and> length (validation_total_losses t) = length (validation_total_losses s)
    \<and> (\<forall>j < length (validation_examples s).
          validation_examples t ! j =
            (if j < n then validation_examples s ! j + uint (size0 w (hd iv))
             else validation_examples s ! j))
    \<and> (\<forall>j < length (validation_total_losses s).
          validation_total_losses t ! j =
            (if j < n
             then fadd (validation_total_losses s ! j)
                    (fmul (loss (ts ! j)
                             (forward w (params (nets s ! j)) (training (nets s ! j)) iv) lv wv)
                       (Fin (real_of_int (uint (size0 w (hd iv))))))
             else validation_total_losses s ! j))
    \<and> (0 < n \<longrightarrow> n \<le> length ts \<and> iv \<noteq> [])"
proof -
  let ?P = "\<lambda>n t. nets t = nets s \<and> draws t = draws s
    \<and> trace t = trace s @ map Forward [0..<n]
    \<and> length (validation_examples t) = length (validation_examples s)
    \<and> length (validation_total_losses t) = length (validation_total_losses s)
    \<and> (\<forall>j < length (validation_examples s).
          validation_examples t ! j =
            (if j < n then validation_examples s ! j + uint (size0 w (hd iv))
             else validation_examples s ! j))
    \<and> (\<forall>j < length (validation_total_losses s).
          validation_total_losses t ! j =
            (if j < n
             then fadd (validation_total_losses s ! j)
                    (fmul (loss (ts ! j)
                             (forward w (params (nets s ! j)) (training (nets s ! j)) iv) lv wv)
                       (Fin (real_of_int (uint (size0 w (hd iv))))))
             else validation_total_losses s ! j))
    \<and> (0 < n \<longrightarrow> n \<le> length ts \<and> iv \<noteq> [])"
  show ?thesis
  proof (rule for_each_upt_Ok_induct [OF assms, where P = ?P])
    show "?P 0 s" by simp
  next
    fix k u u'
    assume k: "k < n" and u: "?P k u"
      and b: "validate_net_on_batch w ts iv lv wv k u = Ok u'"
    note step = validate_net_on_batch_Ok [OF b]
    show "?P (Suc k) u'"
      using u step by (auto simp: nth_list_update less_Suc_eq)
  qed
qed

lemma validate_on_batch_Ok:
  assumes run: "validate_on_batch w ts ni nl b s = Ok t"
    and ni: "0 \<le> ni"
    and le: "length (validation_examples s) = length (nets s)"
            "length (validation_total_losses s) = length (nets s)"
  shows "nets t = nets s \<and> draws t = draws s
    \<and> trace t = trace s @ map Forward [0..<length (nets s)]
    \<and> length (validation_examples t) = length (nets s)
    \<and> length (validation_total_losses t) = length (nets s)
    \<and> (\<forall>j < length (nets s).
          validation_examples t ! j = validation_examples s ! j + batch_examples w b)
    \<and> (\<forall>j < length (nets s).
          validation_total_losses t ! j =
            accumulate w (ts ! j) (params (nets s ! j)) (training (nets s ! j)) ni nl
              (validation_total_losses s ! j) b)"
proof -
  from run obtain iv lv wv where d: "DataBatchToVariables b ni nl = Inr (iv, lv, wv)"
    and loop: "for_each [0..<length (nets s)] (validate_net_on_batch w ts iv lv wv) s = Ok t"
    by (auto simp: validate_on_batch_def split: sum.splits)
  note v = DataBatchToVariables_Inr [OF d]
  note r = validate_nets_Ok [OF loop]
  show ?thesis
  proof (cases "length (nets s) = 0")
    case True
    with r le show ?thesis by simp
  next
    case False
    with r have "iv \<noteq> []" by simp
    then have "hd iv = hd b" using hd_py_slice(1) [OF ni] v(1) by simp
    then have bs: "uint (size0 w (hd iv)) = batch_examples w b"
      using v(4) by (simp add: batch_examples_hd)
    note r' = r [unfolded bs]
    show ?thesis
      using r' le v(1,2,3)
      by (simp add: accumulate_def batch_loss_def)
  qed
qed

lemma validate_batches_Ok:
  assumes run: "for_each batches (validate_on_batch w ts ni nl) s = Ok t"
    and ni: "0 \<le> ni"
    and le: "length (validation_examples s) = length (nets s)"
            "length (validation_total_losses s) = length (nets s)"
  shows "nets t = nets s \<and> draws t = draws s
    \<and> trace t = trace s @ concat (map (\<lambda>b. map Forward [0..<length (nets s)]) batches)
    \<and> length (validation_examples t) = length (nets s)
    \<and> length (validation_total_losses t) = length (nets s)
    \<and> (\<forall>j < length (nets s).
          validation_examples t ! j = validation_examples s ! j + dataset_size w batches)
    \<and> (\<forall>j < length (nets s).
          validation_total_losses t ! j =
            foldl (accumulate w (ts ! j) (params (nets s ! j)) (training (nets s ! j)) ni nl)
              (validation_total_losses s ! j) batches)"
proof -
  let ?P = "\<lambda>batches t. nets t = nets s \<and> draws t = draws s
    \<and> trace t = trace s @ concat (map (\<lambda>b. map Forward [0..<length (nets s)]) batches)
    \<and> length (validation_examples t) = length (nets s)
    \<and> length (validation_total_losses t) = length (nets s)
    \<and> (\<forall>j < length (nets s).
          validation_examples t ! j = validation_examples s ! j + dataset_size w batches)
    \<and> (\<forall>j < length (nets s).
          validation_total_losses t ! j =
            foldl (accumulate w (ts ! j) (params (nets s ! j)) (training (nets s ! j)) ni nl)
              (validation_total_losses s ! j) batches)"
  show ?thesis
  proof (rule for_each_Ok_induct [OF run, where P = ?P])
    show "?P [] s" using le by (simp add: dataset_size_def)
  next
    fix ys x u u'
    assume u: "?P ys u" and b: "validate_on_batch w ts ni nl x u = Ok u'"
    have step: "nets u' = nets u \<and> draws u' = draws u
      \<and> trace u' = trace u @ map Forward [0..<length (nets u)]
      \<and> length (validation_examples u') = length (nets u)
      \<and> length (validation_total_losses u') = length (nets u)
      \<and> (\<forall>j < length (nets u).
            validation_examples u' ! j = validation_examples u ! j + batch_examples w x)
      \<and> (\<forall>j < length (nets u).
            validation_total_losses u' ! j =
              accumulate w (ts ! j) (params (nets u ! j)) (training (nets u ! j)) ni nl
                (validation_total_losses u ! j) x)"
      using b ni u by (intro validate_on_batch_Ok) simp_all
    show "?P (ys @ [x]) u'"
      using u step by (simp add: dataset_size_def)
  qed
qed

lemma for_each_succeeds:
  assumes "\<And>x u. x \<in> set xs \<Longrightarrow> I u \<Longrightarrow> \<exists>u'. body x u = Ok u' \<and> I u'"
    and "I s"
  shows "\<exists>t. for_each xs body s = Ok t \<and> I t"
  using assms
proof (induction xs arbitrary: s)
  case Nil
  then show ?case by simp
next
  case (Cons x xs)
  from Cons.prems obtain u where u: "body x s = Ok u" "I u" by (metis list.set_intros(1))
  have "\<exists>t. for_each xs body u = Ok t \<and> I t"
    using Cons.prems(1) u(2) by (intro Cons.IH) simp_all
  with u show ?case by simp
qed

lemma DataBatchToVariables_well_formed:
  assumes "well_formed_batch ni nl b"
  shows "\<exists>iv lv wv. DataBatchToVariables b ni nl = Inr (iv, lv, wv) \<and> iv \<noteq> []"
proof -
  from assms have ni: "1 \<le> ni" and nl: "0 \<le> nl" and len: "int (length b) = ni + nl + 1"
    by (simp_all add: well_formed_batch_def)
  then have ne: "b \<noteq> []" by auto
  have "py_slice b 0 ni = take (nat ni) b" using ni by (intro py_slice_prefix) simp
  then have "py_slice b 0 ni \<noteq> []" using ni ne by (simp add: take_eq_Nil)
  then show ?thesis
    using len ne by (simp add: DataBatchToVariables_def Let_def py_last_def)
qed

lemma validate_net_on_batch_succeeds:
  assumes "i < length ts" and "iv \<noteq> []"
  shows "\<exists>t. validate_net_on_batch w ts iv lv wv i s = Ok t \<and> nets t = nets s"
  using assms
  by (cases iv)
     (simp_all add: validate_net_on_batch_def Let_def py_index_def py_first_def emit_def)

lemma validate_on_batch_succeeds:
  fixes s :: "'p state"
  assumes "well_formed_batch ni nl b" and "length (nets s) \<le> length ts"
  shows "\<exists>t. validate_on_batch w ts ni nl b s = Ok t \<and> nets t = nets s"
proof -
  from assms(1) obtain iv lv wv where d: "DataBatchToVariables b ni nl = Inr (iv, lv, wv)"
    and iv: "iv \<noteq> []"
    using DataBatchToVariables_well_formed by blast
  have "\<exists>t. for_each [0..<length (nets s)] (validate_net_on_batch w ts iv lv wv) s = Ok t
          \<and> nets t = nets s"
  proof (rule for_each_succeeds [where I = "\<lambda>u. nets u = nets s"])
    fix x and u :: "'p state"
    assume "x \<in> set [0..<length (nets s)]" and u: "nets u = nets s"
    then have "x < length ts" using assms(2) by simp
    then obtain t where "validate_net_on_batch w ts iv lv wv x u = Ok t" "nets t = nets u"
      using validate_net_on_batch_succeeds [OF _ iv] by blast
    with u show "\<exists>u'. validate_net_on_batch w ts iv lv wv x u = Ok u' \<and> nets u' = nets s"
      by simp
  qed simp
  with d show ?thesis by (simp add: validate_on_batch_def)
qed

lemma validation_reset_result:
  "trace (validation_reset s) = trace s @ map EvalCall [0..<length (nets s)]"
  "nets (validation_reset s) = map (\<lambda>n. n\<lparr>training := False\<rparr>) (nets s)"
  "draws (validation_reset s) = draws s"
  "validation_examples (validation_reset s) = replicate (length (nets s)) 0"
  "validation_total_losses (validation_reset s) = replicate (length (nets s)) (Fin 0)"
proof -
  let ?s1 = "s\<lparr>validation_total_losses := replicate (length (nets s)) (Fin 0),
               validation_examples := replicate (length (nets s)) 0\<rparr>"
  have n: "length (nets ?s1) = length (nets s)" by simp
  have eq: "validation_reset s = fold (set_training False) [0..<length (nets ?s1)] ?s1"
    by (simp add: validation_reset_def)
  show "trace (validation_reset s) = trace s @ map EvalCall [0..<length (nets s)]"
    unfolding eq set_training_all by simp
  show "nets (validation_reset s) = map (\<lambda>n. n\<lparr>training := False\<rparr>) (nets s)"
    unfolding eq set_training_all by simp
  show "draws (validation_reset s) = draws s"
    unfolding eq set_training_all by simp
  show "validation_examples (validation_reset s) = replicate (length (nets s)) 0"
    unfolding eq set_training_all by simp
  show "validation_total_losses (validation_reset s) = replicate (length (nets s)) (Fin 0)"
    unfolding eq set_training_all by simp
qed

subsection \<open>Runs with probability 0\<close>

lemma training_phase_never:
  assumes "\<forall>k. 0 \<le> uniform w k"
  shows "\<exists>d. state_of (training_phase w ts (Fin 0) ni nl bs s) = (epoch_reset ts s)\<lparr>draws := d\<rparr>"
  unfolding training_phase_def using assms by (rule train_batches_never)

lemma training_phase_never_advances:
  assumes "\<forall>k. 0 \<le> uniform w k" and "\<And>i. Q (ZeroGrad i)"
  shows "advances Q s (state_of (training_phase w ts (Fin 0) ni nl bs s))"
proof -
  obtain d where "state_of (training_phase w ts (Fin 0) ni nl bs s) = (epoch_reset ts s)\<lparr>draws := d\<rparr>"
    using training_phase_never [OF assms(1)] by blast
  moreover have "advances Q s ((epoch_reset ts s)\<lparr>draws := d\<rparr>)"
    using epoch_reset_advances [of Q s ts] assms(2)
    by (simp add: advances_def extends_def)
  ultimately show ?thesis by simp
qed

lemma average_of_nothing:
  "AverageLosses (replicate n (Fin 0)) (replicate n 0) = Inr (replicate n PInf)"
proof -
  have "\<forall>z \<in> set (zip (replicate n (Fin 0)) (replicate n (0 :: int))). snd z < overflow_bound"
    using overflow_bound_positive by (auto dest: set_zip_rightD)
  then show ?thesis
    by (simp add: AverageLosses_in_range average_value_def zip_replicate)
qed

text \<open>Every call of a run satisfies \<open>Q\<close> when the calls of its epochs and \<open>Q\<close> holds
  of the calls made before and after them.\<close>

lemma TrainModels_calls:
  assumes train: "\<And>k t. advances Q t (state_of (training_phase w ts p
                     (int (length (input_names (hd nets0)))) (int (length (label_names (hd nets0))))
                     (train_loader k) t))"
    and q: "\<And>i. Q (Forward i)" "\<And>i. Q (EvalCall i)" "\<And>i. Q (TrainCall i)"
    and c: "\<And>i. Q (Cpu i)" "\<And>i. Q (Cuda i)" "\<And>i q. Q (Save (best_path out_prefix i) q)"
    and r: "\<And>k m x. Q (PrintLog k m x)" "\<And>n v k. Q (TbLogValue n v k)"
    and l: "\<And>i q. Q (Save (last_path out_prefix i) q)" "\<And>d. Q (TbConfigure d)"
  shows "list_all Q (trace (state_of
           (TrainModels w nets0 train_loader val_loader ts out_prefix p print_log log_dir)))"
proof -
  let ?s0 = "initial_state nets0 log_dir"
  let ?ni = "int (length (input_names (hd nets0)))"
  let ?nl = "int (length (label_names (hd nets0)))"
  have s0: "list_all Q (trace ?s0)" using l(2) by (simp add: initial_state_def)
  show ?thesis
  proof (cases "nets0 = [] \<or> ts = []")
    case True
    then have "state_of (TrainModels w nets0 train_loader val_loader ts out_prefix p print_log
                 log_dir) = ?s0"
      by (auto simp: TrainModels_def Let_def py_first_def split: list.splits)
    with s0 show ?thesis by simp
  next
    case False
    let ?r = "run_epochs w train_loader val_loader ts out_prefix p print_log log_dir ?ni ?nl
                (nat (epochs (hd ts))) ?s0"
    have eq: "TrainModels w nets0 train_loader val_loader ts out_prefix p print_log log_dir
            = and_then ?r (\<lambda>s. Ok (fold (save_last out_prefix) [0..<length (nets s)] s))"
      using False by (auto simp: TrainModels_def Let_def py_first_def split: list.splits)
    have "extends Q ?s0 (state_of ?r) \<and> length (nets (state_of ?r)) = length (nets ?s0)"
      by (rule run_epochs_extends) (rule train q c r)+
    then have ext: "extends Q ?s0 (state_of ?r)" by simp
    have fin: "\<And>s. extends Q s (fold (save_last out_prefix) [0..<length (nets s)] s)"
      by (rule fold_extends) (simp add: save_last_def extends_def emit_def l(1) c(1,2))
    have "extends Q ?s0 (state_of (TrainModels w nets0 train_loader val_loader ts out_prefix p
                                    print_log log_dir))"
    proof (cases ?r)
      case (Raised e t)
      with ext show ?thesis by (simp add: eq)
    next
      case (Ok t)
      with ext fin [of t] show ?thesis by (auto simp: eq intro: extends_trans)
    qed
    with s0 show ?thesis by (auto simp: extends_def)
  qed
qed

subsection \<open>The training phase when every model uses every batch\<close>

lemma train_net_on_batch_Ok:
  assumes "train_net_on_batch w ts p iv lv wv i s = Ok t"
    and "flt (Fin (uniform w (draws s))) p"
  shows "i < length ts \<and> iv \<noteq> []
    \<and> length (nets t) = length (nets s)
    \<and> trace t = trace s @ train_events i
    \<and> train_examples_per_net t
        = (train_examples_per_net s)[i := train_examples_per_net s ! i + uint (size0 w (hd iv))]"
  using assms
  by (auto simp: train_net_on_batch_def Let_def py_index_def py_first_def with_value_def
        emit_def train_events_def split: if_splits list.splits)

lemma train_net_on_batch_succeeds:
  fixes s :: "'p state"
  assumes "i < length ts" and "iv \<noteq> []"
  shows "\<exists>t. train_net_on_batch w ts p iv lv wv i s = Ok t \<and> length (nets t) = length (nets s)"
  using assms
  by (cases iv)
     (simp_all add: train_net_on_batch_def Let_def py_index_def py_first_def emit_def)

lemma train_nets_Ok:
  assumes run: "for_each [0..<n] (train_net_on_batch w ts (Fin 1) iv lv wv) s = Ok t"
    and u: "\<forall>k. uniform w k < 1"
  shows "length (nets t) = length (nets s)
    \<and> trace t = trace s @ concat (map train_events [0..<n])
    \<and> length (train_examples_per_net t) = length (train_examples_per_net s)
    \<and> (\<forall>j < length (train_examples_per_net s).
          train_examples_per_net t ! j =
            (if j < n then train_examples_per_net s ! j + uint (size0 w (hd iv))
             else train_examples_per_net s ! j))
    \<and> (0 < n \<longrightarrow> iv \<noteq> [])"
proof -
  let ?P = "\<lambda>n t. length (nets t) = length (nets s)
    \<and> trace t = trace s @ concat (map train_events [0..<n])
    \<and> length (train_examples_per_net t) = length (train_examples_per_net s)
    \<and> (\<forall>j < length (train_examples_per_net s).
          train_examples_per_net t ! j =
            (if j < n then train_examples_per_net s ! j + uint (size0 w (hd iv))
             else train_examples_per_net s ! j))
    \<and> (0 < n \<longrightarrow> iv \<noteq> [])"
  show ?thesis
  proof (rule for_each_upt_Ok_induct [OF run, where P = ?P])
    show "?P 0 s" by simp
  next
    fix k u' u''
    assume k: "k < n" and p: "?P k u'"
      and b: "train_net_on_batch w ts (Fin 1) iv lv wv k u' = Ok u''"
    have "flt (Fin (uniform w (draws u'))) (Fin 1)" using u by simp
    note step = train_net_on_batch_Ok [OF b this]
    show "?P (Suc k) u''"
      using p step by (auto simp: nth_list_update less_Suc_eq)
  qed
qed

lemma train_on_batch_Ok:
  assumes run: "train_on_batch w ts (Fin 1) ni nl b s = Ok t"
    and u: "\<forall>k. uniform w k < 1"
    and ni: "0 \<le> ni"
    and le: "length (train_examples_per_net s) = length (nets s)"
  shows "length (nets t) = length (nets s)
    \<and> trace t = trace s @ concat (map train_events [0..<length (nets s)])
    \<and> length (train_examples_per_net t) = length (nets s)
    \<and> (\<forall>j < length (nets s).
          train_examples_per_net t ! j = train_examples_per_net s ! j + batch_examples w b)"
proof -
  from run obtain iv lv wv where d: "DataBatchToVariables b ni nl = Inr (iv, lv, wv)"
    and loop: "for_each [0..<length (nets s)] (train_net_on_batch w ts (Fin 1) iv lv wv) s = Ok t"
    by (auto simp: train_on_batch_def split: sum.splits)
  note v = DataBatchToVariables_Inr [OF d]
  note r = train_nets_Ok [OF loop u]
  show ?thesis
  proof (cases "length (nets s) = 0")
    case True
    with r le show ?thesis by simp
  next
    case False
    with r have "iv \<noteq> []" by simp
    then have "hd iv = hd b" using hd_py_slice(1) [OF ni] v(1) by simp
    then have bs: "uint (size0 w (hd iv)) = batch_examples w b"
      using v(4) by (simp add: batch_examples_hd)
    show ?thesis using r le bs by simp
  qed
qed

lemma train_batches_Ok:
  assumes run: "for_each batches (train_on_batch w ts (Fin 1) ni nl) s = Ok t"
    and u: "\<forall>k. uniform w k < 1"
    and ni: "0 \<le> ni"
    and le: "length (train_examples_per_net s) = length (nets s)"
  shows "length (nets t) = length (nets s)
    \<and> trace t = trace s
        @ concat (map (\<lambda>b. concat (map train_events [0..<length (nets s)])) batches)
    \<and> length (train_examples_per_net t) = length (nets s)
    \<and> (\<forall>j < length (nets s).
          train_examples_per_net t ! j = train_examples_per_net s ! j + dataset_size w batches)"
proof -
  let ?P = "\<lambda>batches t. length (nets t) = length (nets s)
    \<and> trace t = trace s
        @ concat (map (\<lambda>b. concat (map train_events [0..<length (nets s)])) batches)
    \<and> length (train_examples_per_net t) = length (nets s)
    \<and> (\<forall>j < length (nets s).
          train_examples_per_net t ! j = train_examples_per_net s ! j + dataset_size w batches)"
  show ?thesis
  proof (rule for_each_Ok_induct [OF run, where P = ?P])
    show "?P [] s" using le by (simp add: dataset_size_def)
  next
    fix ys x u' u''
    assume p: "?P ys u'" and b: "train_on_batch w ts (Fin 1) ni nl x u' = Ok u''"
    have step: "length (nets u'') = length (nets u')
      \<and> trace u'' = trace u' @ concat (map train_events [0..<length (nets u')])
      \<and> length (train_examples_per_net u'') = length (nets u')
      \<and> (\<forall>j < length (nets u').
            train_examples_per_net u'' ! j = train_examples_per_net u' ! j + batch_examples w x)"
      using b u ni p by (intro train_on_batch_Ok) simp_all
    show "?P (ys @ [x]) u''"
      using p step by (simp add: dataset_size_def)
  qed
qed

lemma train_on_batch_succeeds:
  fixes s :: "'p state"
  assumes "well_formed_batch ni nl b" and "length (nets s) \<le> length ts"
  shows "\<exists>t. train_on_batch w ts p ni nl b s = Ok t \<and> length (nets t) = length (nets s)"
proof -
  from assms(1) obtain iv lv wv where d: "DataBatchToVariables b ni nl = Inr (iv, lv, wv)"
    and iv: "iv \<noteq> []"
    using DataBatchToVariables_well_formed by blast
  have "\<exists>t. for_each [0..<length (nets s)] (train_net_on_batch w ts p iv lv wv) s = Ok t
          \<and> length (nets t) = length (nets s)"
  proof (rule for_each_succeeds [where I = "\<lambda>u. length (nets u) = length (nets s)"])
    fix x and u :: "'p state"
    assume "x \<in> set [0..<length (nets s)]" and u: "length (nets u) = length (nets s)"
    then have "x < length ts" using assms(2) by simp
    then obtain t where "train_net_on_batch w ts p iv lv wv x u = Ok t"
      "length (nets t) = length (nets u)"
      using train_net_on_batch_succeeds [OF _ iv] by blast
    with u show "\<exists>u'. train_net_on_batch w ts p iv lv wv x u = Ok u'
                   \<and> length (nets u') = length (nets s)"
      by simp
  qed simp
  with d show ?thesis by (simp add: train_on_batch_def)
qed

lemma training_phase_succeeds:
  fixes s :: "'p state"
  assumes "length (nets s) \<le> length ts" and "\<And>b. b \<in> set batches \<Longrightarrow> well_formed_batch ni nl b"
  shows "\<exists>t. training_phase w ts p ni nl batches s = Ok t"
proof -
  let ?r = "epoch_reset ts s"
  have n: "length (nets ?r) = length (nets s)" by (simp add: epoch_reset_def emit_def)
  have "\<exists>t. for_each batches (train_on_batch w ts p ni nl) ?r = Ok t
          \<and> length (nets t) = length (nets s)"
  proof (rule for_each_succeeds [where I = "\<lambda>u. length (nets u) = length (nets s)"])
    fix x and u :: "'p state"
    assume x: "x \<in> set batches" and u: "length (nets u) = length (nets s)"
    have "length (nets u) \<le> length ts" using u assms(1) by simp
    then obtain t where "train_on_batch w ts p ni nl x u = Ok t"
      "length (nets t) = length (nets u)"
      using train_on_batch_succeeds [OF assms(2) [OF x]] by blast
    with u show "\<exists>u'. train_on_batch w ts p ni nl x u = Ok u'
                   \<and> length (nets u') = length (nets s)" by simp
  qed (rule n)
  then show ?thesis by (auto simp: training_phase_def)
qed

subsection \<open>The training log\<close>

lemma epoch_body_log:
  assumes "epoch_body w train_loader val_loader ts out_prefix p print_log log_dir ni nl k s = Ok s'"
  shows "train_log s' = train_log s @ [epoch_metrics s']"
proof -
  from assms obtain s4 where adv: "advances (\<lambda>_. True) s s4"
    and s': "s' = report print_log log_dir k (checkpoints out_prefix (log_epoch s4))"
    by (rule epoch_body_phases [where Q = "\<lambda>_. True"]) (simp_all add: training_phase_advances)
  have "train_log s4 = train_log s" using adv by (simp add: advances_def)
  then show ?thesis by (simp add: s')
qed

lemma run_epochs_log:
  assumes "run_epochs w train_loader val_loader ts out_prefix p print_log log_dir ni nl k s = Ok t"
  shows "length (train_log t) = length (train_log s) + k
    \<and> (\<forall>j \<le> k. \<exists>u. run_epochs w train_loader val_loader ts out_prefix p print_log log_dir
                        ni nl j s = Ok u
                  \<and> train_log u = take (length (train_log s) + j) (train_log t))
    \<and> (\<forall>j < k. \<exists>u u'. run_epochs w train_loader val_loader ts out_prefix p print_log log_dir
                        ni nl j s = Ok u
                  \<and> epoch_body w train_loader val_loader ts out_prefix p print_log log_dir
                        ni nl j u = Ok u'
                  \<and> train_log t ! (length (train_log s) + j) = epoch_metrics u')"
  using assms
proof (induction k arbitrary: t)
  case 0
  then show ?case by simp
next
  case (Suc k)
  let ?run = "run_epochs w train_loader val_loader ts out_prefix p print_log log_dir ni nl"
  let ?body = "epoch_body w train_loader val_loader ts out_prefix p print_log log_dir ni nl"
  from Suc.prems obtain v where v: "?run k s = Ok v" and b: "?body k v = Ok t"
    by (auto simp: run_epochs_Suc and_then_def split: outcome.splits)
  note IH = Suc.IH [OF v]
  have log: "train_log t = train_log v @ [epoch_metrics t]" using b by (rule epoch_body_log)
  have len: "length (train_log v) = length (train_log s) + k" using IH by simp
  have 1: "length (train_log t) = length (train_log s) + Suc k" using log len by simp
  have 2: "\<forall>j \<le> Suc k. \<exists>u. ?run j s = Ok u
             \<and> train_log u = take (length (train_log s) + j) (train_log t)"
  proof (intro allI impI)
    fix j assume j: "j \<le> Suc k"
    show "\<exists>u. ?run j s = Ok u \<and> train_log u = take (length (train_log s) + j) (train_log t)"
    proof (cases "j = Suc k")
      case True
      then show ?thesis using Suc.prems 1 by simp
    next
      case False
      with j have jk: "j \<le> k" by simp
      with IH obtain u where u: "?run j s = Ok u"
        "train_log u = take (length (train_log s) + j) (train_log v)" by blast
      have "take (length (train_log s) + j) (train_log t)
              = take (length (train_log s) + j) (train_log v)"
        using log len jk by simp
      with u show ?thesis by simp
    qed
  qed
  have 3: "\<forall>j < Suc k. \<exists>u u'. ?run j s = Ok u \<and> ?body j u = Ok u'
             \<and> train_log t ! (length (train_log s) + j) = epoch_metrics u'"
  proof (intro allI impI)
    fix j assume j: "j < Suc k"
    show "\<exists>u u'. ?run j s = Ok u \<and> ?body j u = Ok u'
             \<and> train_log t ! (length (train_log s) + j) = epoch_metrics u'"
    proof (cases "j = k")
      case True
      have "train_log t ! (length (train_log s) + k) = epoch_metrics t"
        using log len by (simp add: nth_append)
      with True v b show ?thesis by blast
    next
      case False
      with j have jk: "j < k" by simp
      with IH obtain u u' where u: "?run j s = Ok u" "?body j u = Ok u'"
        "train_log v ! (length (train_log s) + j) = epoch_metrics u'" by blast
      have "train_log t ! (length (train_log s) + j) = train_log v ! (length (train_log s) + j)"
        using log len jk by (simp add: nth_append)
      with u show ?thesis by auto
    qed
  qed
  from 1 2 3 show ?case by blast
qed

subsection \<open>Settings that differ in their epoch counts\<close>

lemma forget_epochs_nth:
  assumes "map forget_epochs ts = map forget_epochs ts'"
  shows "length ts = length ts'"
    and "\<And>i. i < length ts \<Longrightarrow> loss (ts ! i) = loss (ts' ! i)"
    and "\<And>i. i < length ts \<Longrightarrow> optimizer (ts ! i) = optimizer (ts' ! i)"
proof -
  show len: "length ts = length ts'" using assms by (rule map_eq_imp_length_eq)
  fix i assume i: "i < length ts"
  have "forget_epochs (ts ! i) = forget_epochs (ts' ! i)"
    using assms i len by (metis nth_map)
  then have "loss (forget_epochs (ts ! i)) = loss (forget_epochs (ts' ! i))"
    and "optimizer (forget_epochs (ts ! i)) = optimizer (forget_epochs (ts' ! i))"
    by simp_all
  then show "loss (ts ! i) = loss (ts' ! i)" and "optimizer (ts ! i) = optimizer (ts' ! i)"
    by (simp_all add: forget_epochs_def)
qed

lemma train_net_on_batch_settings:
  assumes "map forget_epochs ts = map forget_epochs ts'"
  shows "train_net_on_batch w ts = train_net_on_batch w ts'"
  using forget_epochs_nth [OF assms]
  by (intro ext) (simp add: train_net_on_batch_def py_index_def Let_def)

lemma validate_net_on_batch_settings:
  assumes "map forget_epochs ts = map forget_epochs ts'"
  shows "validate_net_on_batch w ts = validate_net_on_batch w ts'"
  using forget_epochs_nth [OF assms]
  by (intro ext) (simp add: validate_net_on_batch_def py_index_def Let_def)

lemma train_on_batch_settings:
  assumes "map forget_epochs ts = map forget_epochs ts'"
  shows "train_on_batch w ts = train_on_batch w ts'"
  by (intro ext)
     (simp add: train_on_batch_def train_net_on_batch_settings [OF assms] split: sum.splits)

lemma validate_on_batch_settings:
  assumes "map forget_epochs ts = map forget_epochs ts'"
  shows "validate_on_batch w ts = validate_on_batch w ts'"
  by (intro ext)
     (simp add: validate_on_batch_def validate_net_on_batch_settings [OF assms]
        split: sum.splits)

lemma epoch_body_settings:
  assumes "map forget_epochs ts = map forget_epochs ts'"
  shows "epoch_body w train_loader val_loader ts = epoch_body w train_loader val_loader ts'"
  using forget_epochs_nth(1) [OF assms]
  by (intro ext)
     (simp add: epoch_body_def training_phase_def validation_phase_def epoch_reset_def
        train_on_batch_settings [OF assms] validate_on_batch_settings [OF assms])

lemma run_epochs_settings:
  assumes "map forget_epochs ts = map forget_epochs ts'"
  shows "run_epochs w train_loader val_loader ts = run_epochs w train_loader val_loader ts'"
  by (intro ext) (simp add: run_epochs_def epoch_body_settings [OF assms])

subsection \<open>Models that differ in their name lists\<close>

lemma for_each_sim:
  assumes "\<And>x u. x \<in> set xs \<Longrightarrow> I u \<Longrightarrow>
             body' x (g u) = map_outcome g (body x u) \<and> I (state_of (body x u))"
    and "I s"
  shows "for_each xs body' (g s) = map_outcome g (for_each xs body s)"
  using assms
proof (induction xs arbitrary: s)
  case Nil
  show ?case by simp
next
  case (Cons x xs)
  have step: "body' x (g s) = map_outcome g (body x s)" and inv: "I (state_of (body x s))"
    using Cons.prems by simp_all
  show ?case
  proof (cases "body x s")
    case (Raised e u)
    with step show ?thesis by simp
  next
    case (Ok u)
    with inv have "I u" by simp
    then have "for_each xs body' (g u) = map_outcome g (for_each xs body u)"
      using Cons.prems(1) by (intro Cons.IH) simp_all
    with step Ok show ?thesis by simp
  qed
qed

lemma fold_sim:
  assumes "\<And>x u. x \<in> set xs \<Longrightarrow> I u \<Longrightarrow> h x (g u) = g (h x u) \<and> I (h x u)"
    and "I s"
  shows "fold h xs (g s) = g (fold h xs s)"
  using assms
  by (induction xs arbitrary: s) simp_all

lemma forget_fields [simp]:
  "nets (forget s) = map forget_names (nets s)"
  "trace (forget s) = trace s"
  "draws (forget s) = draws s"
  "train_log (forget s) = train_log s"
  "min_validation_losses (forget s) = min_validation_losses s"
  "min_validation_loss (forget s) = min_validation_loss s"
  "running_losses (forget s) = running_losses s"
  "train_examples_per_net (forget s) = train_examples_per_net s"
  "epoch_duration (forget s) = epoch_duration s"
  "examples_per_sec (forget s) = examples_per_sec s"
  "avg_losses (forget s) = avg_losses s"
  "avg_loss (forget s) = avg_loss s"
  "validation_total_losses (forget s) = validation_total_losses s"
  "validation_examples (forget s) = validation_examples s"
  "validation_avg_losses (forget s) = validation_avg_losses s"
  "validation_avg_loss (forget s) = validation_avg_loss s"
  "val_improved_marker (forget s) = val_improved_marker s"
  by (simp_all add: forget_def)

lemma forget_names_fields [simp]:
  "params (forget_names net) = params net"
  "training (forget_names net) = training net"
  by (simp_all add: forget_names_def)

lemma forget_names_update [simp]:
  "forget_names (net\<lparr>params := x\<rparr>) = (forget_names net)\<lparr>params := x\<rparr>"
  "forget_names (net\<lparr>training := b\<rparr>) = (forget_names net)\<lparr>training := b\<rparr>"
  by (cases net, simp add: forget_names_def)+

lemma train_net_on_batch_forget:
  assumes "i < length (nets s)"
  shows "train_net_on_batch w ts p iv lv wv i (forget s)
           = map_outcome forget (train_net_on_batch w ts p iv lv wv i s)"
  using assms
  by (cases s)
     (simp add: train_net_on_batch_def Let_def py_index_def py_first_def emit_def
        forget_def map_update split: list.splits)

lemma validate_net_on_batch_forget:
  assumes "i < length (nets s)"
  shows "validate_net_on_batch w ts iv lv wv i (forget s)
           = map_outcome forget (validate_net_on_batch w ts iv lv wv i s)"
  using assms
  by (cases s)
     (simp add: validate_net_on_batch_def Let_def py_index_def py_first_def emit_def
        forget_def split: list.splits)

lemma set_training_forget:
  assumes "i < length (nets s)"
  shows "set_training b i (forget s) = forget (set_training b i s)"
  using assms
  by (cases s) (simp add: set_training_def emit_def forget_def map_update)

lemma checkpoint_net_forget:
  assumes "i < length (nets s)"
  shows "checkpoint_net out_prefix i (forget s) = forget (checkpoint_net out_prefix i s)"
  using assms
  by (cases s) (simp add: checkpoint_net_def emit_def forget_def)

lemma save_last_forget:
  assumes "i < length (nets s)"
  shows "save_last out_prefix i (forget s) = forget (save_last out_prefix i s)"
  using assms
  by (cases s) (simp add: save_last_def emit_def forget_def)

lemma and_then_sim:
  assumes "\<And>u. f (g u) = map_outcome g (f u)"
  shows "and_then (map_outcome g r) f = map_outcome g (and_then r f)"
  using assms by (cases r) simp_all

lemma train_on_batch_forget:
  "train_on_batch w ts p ni nl b (forget s) = map_outcome forget (train_on_batch w ts p ni nl b s)"
proof (cases "DataBatchToVariables b ni nl")
  case (Inl e)
  then show ?thesis by (simp add: train_on_batch_def)
next
  case (Inr v)
  obtain iv lv wv where v: "v = (iv, lv, wv)" by (cases v)
  have "for_each [0..<length (nets s)] (train_net_on_batch w ts p iv lv wv) (forget s)
          = map_outcome forget
              (for_each [0..<length (nets s)] (train_net_on_batch w ts p iv lv wv) s)"
  proof (rule for_each_sim [where I = "\<lambda>u. length (nets u) = length (nets s)"])
    fix x and u :: "'a state"
    assume "x \<in> set [0..<length (nets s)]" and u: "length (nets u) = length (nets s)"
    then have x: "x < length (nets u)" by simp
    have "advances (\<lambda>_. True) u (state_of (train_net_on_batch w ts p iv lv wv x u))"
      by (rule train_net_on_batch_advances) simp_all
    then have "length (nets (state_of (train_net_on_batch w ts p iv lv wv x u))) = length (nets s)"
      using u by (simp add: advances_def)
    then show "train_net_on_batch w ts p iv lv wv x (forget u)
                 = map_outcome forget (train_net_on_batch w ts p iv lv wv x u)
               \<and> length (nets (state_of (train_net_on_batch w ts p iv lv wv x u)))
                   = length (nets s)"
      using train_net_on_batch_forget [OF x] by simp
  qed simp
  then show ?thesis using Inr v by (simp add: train_on_batch_def)
qed

lemma validate_on_batch_forget:
  "validate_on_batch w ts ni nl b (forget s)
     = map_outcome forget (validate_on_batch w ts ni nl b s)"
proof (cases "DataBatchToVariables b ni nl")
  case (Inl e)
  then show ?thesis by (simp add: validate_on_batch_def)
next
  case (Inr v)
  obtain iv lv wv where v: "v = (iv, lv, wv)" by (cases v)
  have "for_each [0..<length (nets s)] (validate_net_on_batch w ts iv lv wv) (forget s)
          = map_outcome forget
              (for_each [0..<length (nets s)] (validate_net_on_batch w ts iv lv wv) s)"
  proof (rule for_each_sim [where I = "\<lambda>u. length (nets u) = length (nets s)"])
    fix x and u :: "'a state"
    assume "x \<in> set [0..<length (nets s)]" and u: "length (nets u) = length (nets s)"
    then have x: "x < length (nets u)" by simp
    have "advances (\<lambda>_. True) u (state_of (validate_net_on_batch w ts iv lv wv x u))"
      by (rule validate_net_on_batch_advances) simp_all
    then have "length (nets (state_of (validate_net_on_batch w ts iv lv wv x u)))
                 = length (nets s)"
      using u by (simp add: advances_def)
    then show "validate_net_on_batch w ts iv lv wv x (forget u)
                 = map_outcome forget (validate_net_on_batch w ts iv lv wv x u)
               \<and> length (nets (state_of (validate_net_on_batch w ts iv lv wv x u)))
                   = length (nets s)"
      using validate_net_on_batch_forget [OF x] by simp
  qed simp
  then show ?thesis using Inr v by (simp add: validate_on_batch_def)
qed

lemma epoch_reset_forget: "epoch_reset ts (forget s) = forget (epoch_reset ts s)"
  by (cases s) (simp add: epoch_reset_def emit_def forget_def)

lemma training_phase_forget:
  "training_phase w ts p ni nl bs (forget s)
     = map_outcome forget (training_phase w ts p ni nl bs s)"
  unfolding training_phase_def epoch_reset_forget
  by (rule for_each_sim [where I = "\<lambda>_. True"]) (simp_all add: train_on_batch_forget)

lemma training_stats_forget:
  "training_stats w e (forget s) = map_outcome forget (training_stats w e s)"
  by (cases s)
     (auto simp: training_stats_def Let_def assign_def with_value_def and_then_def forget_def
        split: sum.splits)

lemma validation_stats_forget:
  "validation_stats (forget s) = map_outcome forget (validation_stats s)"
  by (cases s)
     (auto simp: validation_stats_def assign_def with_value_def and_then_def forget_def
        split: sum.splits)

lemma set_training_all_forget:
  "fold (set_training b) [0..<length (nets s)] (forget s)
     = forget (fold (set_training b) [0..<length (nets s)] s)"
proof (rule fold_sim [where I = "\<lambda>u. length (nets u) = length (nets s)"])
  fix x and u :: "'a state"
  assume "x \<in> set [0..<length (nets s)]" and u: "length (nets u) = length (nets s)"
  then have x: "x < length (nets u)" by simp
  show "set_training b x (forget u) = forget (set_training b x u)
        \<and> length (nets (set_training b x u)) = length (nets s)"
    using set_training_forget [OF x] u by (simp add: set_training_def emit_def)
qed simp

lemma validation_reset_forget: "validation_reset (forget s) = forget (validation_reset s)"
proof -
  let ?s1 = "s\<lparr>validation_total_losses := replicate (length (nets s)) (Fin 0),
               validation_examples := replicate (length (nets s)) 0\<rparr>"
  have 1: "(forget s)\<lparr>validation_total_losses := replicate (length (nets s)) (Fin 0),
               validation_examples := replicate (length (nets s)) 0\<rparr> = forget ?s1"
    by (cases s) (simp add: forget_def)
  have "length (nets ?s1) = length (nets s)" by simp
  then have "fold (set_training False) [0..<length (nets s)] (forget ?s1)
          = forget (fold (set_training False) [0..<length (nets s)] ?s1)"
    using set_training_all_forget [of False ?s1] by simp
  then show ?thesis by (simp add: validation_reset_def 1)
qed

lemma validation_phase_forget:
  "validation_phase w ts ni nl bs (forget s)
     = map_outcome forget (validation_phase w ts ni nl bs s)"
proof -
  have loop: "for_each bs (validate_on_batch w ts ni nl) (forget (validation_reset s))
          = map_outcome forget (for_each bs (validate_on_batch w ts ni nl) (validation_reset s))"
    by (rule for_each_sim [where I = "\<lambda>_. True"]) (simp_all add: validate_on_batch_forget)
  have fin: "\<And>u. Ok (fold (set_training True) [0..<length (nets (forget u))] (forget u))
          = map_outcome forget (Ok (fold (set_training True) [0..<length (nets u)] u))"
    using set_training_all_forget by simp
  show ?thesis
    unfolding validation_phase_def validation_reset_forget loop
    by (rule and_then_sim) (rule fin)
qed

lemma log_epoch_forget: "log_epoch (forget s) = forget (log_epoch s)"
  by (cases s) (simp add: log_epoch_def Let_def epoch_metrics_def forget_def)

lemma report_forget: "report print_log log_dir k (forget s) = forget (report print_log log_dir k s)"
  by (cases s) (simp add: report_def Let_def emit_def epoch_metrics_def forget_def)

lemma checkpoints_forget: "checkpoints out_prefix (forget s) = forget (checkpoints out_prefix s)"
  unfolding checkpoints_def
proof -
  have "fold (checkpoint_net out_prefix) [0..<length (nets s)] (forget s)
          = forget (fold (checkpoint_net out_prefix) [0..<length (nets s)] s)"
  proof (rule fold_sim [where I = "\<lambda>u. length (nets u) = length (nets s)"])
    fix x and u :: "'a state"
    assume "x \<in> set [0..<length (nets s)]" and u: "length (nets u) = length (nets s)"
    then have x: "x < length (nets u)" by simp
    show "checkpoint_net out_prefix x (forget u) = forget (checkpoint_net out_prefix x u)
          \<and> length (nets (checkpoint_net out_prefix x u)) = length (nets s)"
      using checkpoint_net_forget [OF x] u by simp
  qed simp
  then show "fold (checkpoint_net out_prefix) [0..<length (nets (forget s))] (forget s)
          = forget (fold (checkpoint_net out_prefix) [0..<length (nets s)] s)"
    by simp
qed

lemma save_last_all_forget:
  "fold (save_last out_prefix) [0..<length (nets (forget s))] (forget s)
     = forget (fold (save_last out_prefix) [0..<length (nets s)] s)"
proof -
  have "fold (save_last out_prefix) [0..<length (nets s)] (forget s)
          = forget (fold (save_last out_prefix) [0..<length (nets s)] s)"
  proof (rule fold_sim [where I = "\<lambda>u. length (nets u) = length (nets s)"])
    fix x and u :: "'a state"
    assume "x \<in> set [0..<length (nets s)]" and u: "length (nets u) = length (nets s)"
    then have x: "x < length (nets u)" by simp
    show "save_last out_prefix x (forget u) = forget (save_last out_prefix x u)
          \<and> length (nets (save_last out_prefix x u)) = length (nets s)"
      using save_last_forget [OF x] u by (simp add: save_last_def emit_def)
  qed simp
  then show ?thesis by simp
qed

lemma epoch_body_forget:
  "epoch_body w train_loader val_loader ts out_prefix p print_log log_dir ni nl k (forget s)
     = map_outcome forget
         (epoch_body w train_loader val_loader ts out_prefix p print_log log_dir ni nl k s)"
proof -
  let ?f4 = "\<lambda>s4. Ok (report print_log log_dir k (checkpoints out_prefix (log_epoch s4)))"
  let ?f3 = "\<lambda>s3. and_then (validation_stats s3) ?f4"
  let ?f2 = "\<lambda>s2. and_then (validation_phase w ts ni nl (val_loader k) s2) ?f3"
  let ?f1 = "\<lambda>s1. and_then (training_stats w k s1) ?f2"
  have 4: "\<And>u. ?f4 (forget u) = map_outcome forget (?f4 u)"
    by (simp add: log_epoch_forget checkpoints_forget report_forget)
  have 3: "\<And>u. ?f3 (forget u) = map_outcome forget (?f3 u)"
    unfolding validation_stats_forget by (rule and_then_sim) (rule 4)
  have 2: "\<And>u. ?f2 (forget u) = map_outcome forget (?f2 u)"
    unfolding validation_phase_forget by (rule and_then_sim) (rule 3)
  have 1: "\<And>u. ?f1 (forget u) = map_outcome forget (?f1 u)"
    unfolding training_stats_forget by (rule and_then_sim) (rule 2)
  show ?thesis
    unfolding epoch_body_def training_phase_forget by (rule and_then_sim) (rule 1)
qed

lemma run_epochs_forget:
  "run_epochs w train_loader val_loader ts out_prefix p print_log log_dir ni nl k (forget s)
     = map_outcome forget
         (run_epochs w train_loader val_loader ts out_prefix p print_log log_dir ni nl k s)"
  unfolding run_epochs_def
  by (rule for_each_sim [where I = "\<lambda>_. True"]) (simp_all add: epoch_body_forget)

lemma initial_state_forget:
  "forget (initial_state nets0 log_dir) = initial_state (map forget_names nets0) log_dir"
  by (simp add: initial_state_def forget_def)

lemma TrainModels_forget:
  "map_outcome forget
     (TrainModels w nets0 train_loader val_loader ts out_prefix p print_log log_dir)
   = (if nets0 = [] \<or> ts = []
      then Raised IndexError (initial_state (map forget_names nets0) log_dir)
      else and_then
             (run_epochs w train_loader val_loader ts out_prefix p print_log log_dir
                (int (length (input_names (hd nets0)))) (int (length (label_names (hd nets0))))
                (nat (epochs (hd ts))) (initial_state (map forget_names nets0) log_dir))
             (\<lambda>s. Ok (fold (save_last out_prefix) [0..<length (nets s)] s)))"
proof (cases "nets0 = [] \<or> ts = []")
  case True
  then show ?thesis
    by (auto simp: TrainModels_def Let_def py_first_def initial_state_forget split: list.splits)
next
  case False
  let ?run = "run_epochs w train_loader val_loader ts out_prefix p print_log log_dir
                (int (length (input_names (hd nets0)))) (int (length (label_names (hd nets0))))
                (nat (epochs (hd ts)))"
  let ?fin = "\<lambda>s. Ok (fold (save_last out_prefix) [0..<length (nets s)] s)"
  have eq: "TrainModels w nets0 train_loader val_loader ts out_prefix p print_log log_dir
            = and_then (?run (initial_state nets0 log_dir)) ?fin"
    using False by (auto simp: TrainModels_def Let_def py_first_def split: list.splits)
  have fin: "\<And>u. ?fin (forget u) = map_outcome forget (?fin u)"
    using save_last_all_forget by simp
  have "and_then (map_outcome forget (?run (initial_state nets0 log_dir))) ?fin
          = map_outcome forget (and_then (?run (initial_state nets0 log_dir)) ?fin)"
    by (rule and_then_sim) (rule fin)
  then show ?thesis
    using False by (simp add: eq run_epochs_forget [symmetric] initial_state_forget)
qed

lemma save_last_all_log:
  "train_log (fold (save_last out_prefix) xs s) = train_log s"
  by (induction xs arbitrary: s) (simp_all add: save_last_def emit_def)

subsection \<open>Evaluating the definitions on the example\<close>

lemmas example_defs = example_world_def example_net_def example_settings_def example_batch_def

lemmas step_defs = epoch_body_def training_phase_def epoch_reset_def train_on_batch_def
  train_net_on_batch_def training_stats_def validation_phase_def validation_reset_def
  validate_on_batch_def validate_net_on_batch_def set_training_def validation_stats_def
  log_epoch_def checkpoints_def checkpoint_net_def report_def epoch_metrics_def emit_def
  DataBatchToVariables_def py_slice_def py_last_def py_first_def py_index_def py_truediv_def
  AverageLosses_def average_entry_def float_truediv_int_def int_truediv_float_def
  py_float_small py_sum_def py_sum_int_def
  initial_state_def best_path_def last_path_def Let_def




subsection \<open>The pooled averages\<close>

lemma counts_in_range:
  assumes "\<forall>y \<in> set es. y < overflow_bound"
  shows "\<forall>z \<in> set (zip ls es). snd z < overflow_bound"
  using assms by (auto dest: set_zip_rightD)

lemma training_stats_zero_total:
  assumes "py_sum_int (train_examples_per_net s) = 0"
    and "\<forall>y \<in> set (train_examples_per_net s). y < overflow_bound"
  shows "\<exists>s'. training_stats w epoch s = Raised ZeroDivisionError s'"
proof -
  have "AverageLosses (running_losses s) (train_examples_per_net s)
          = Inr (map average_value (zip (running_losses s) (train_examples_per_net s)))"
    by (rule AverageLosses_in_range [OF counts_in_range [OF assms(2)]])
  with assms(1) show ?thesis
    by (auto simp: training_stats_def Let_def py_truediv_def int_truediv_float_def
          float_truediv_int_def py_float_small)
qed

lemma validation_stats_zero_total:
  assumes "py_sum_int (validation_examples s) = 0"
    and "\<forall>y \<in> set (validation_examples s). y < overflow_bound"
  shows "\<exists>s'. validation_stats s = Raised ZeroDivisionError s'"
proof -
  have "AverageLosses (validation_total_losses s) (validation_examples s)
          = Inr (map average_value (zip (validation_total_losses s) (validation_examples s)))"
    by (rule AverageLosses_in_range [OF counts_in_range [OF assms(2)]])
  with assms(1) show ?thesis
    by (auto simp: validation_stats_def py_truediv_def float_truediv_int_def py_float_small)
qed

lemma training_stats_pooled:
  assumes "training_stats w epoch s = Ok s'"
  shows "py_sum_int (train_examples_per_net s) \<noteq> 0
    \<and> avg_loss s' = fdiv (py_sum (running_losses s))
                       (Fin (real_of_int (py_sum_int (train_examples_per_net s))))"
  using assms
  by (auto simp: training_stats_def Let_def py_truediv_def int_truediv_float_def
        float_truediv_int_def py_float_def assign_def with_value_def and_then_def
        split: if_splits sum.splits)

lemma validation_stats_pooled:
  assumes "validation_stats s = Ok s'"
  shows "py_sum_int (validation_examples s) \<noteq> 0
    \<and> validation_avg_loss s' = fdiv (py_sum (validation_total_losses s))
                                  (Fin (real_of_int (py_sum_int (validation_examples s))))"
  using assms
  by (auto simp: validation_stats_def py_truediv_def float_truediv_int_def py_float_def
        assign_def with_value_def and_then_def split: if_splits sum.splits)

text \<open>
  Claim C1.  The pooled average does not follow the zero-count policy of
  \<open>AverageLosses\<close>: in an epoch whose training loader yields no batch, the per-model
  averages are plus infinity and the pooled training average then raises
  \<open>ZeroDivisionError\<close>, which ends the run before anything is logged; an empty
  validation loader does the same to the pooled validation average.
\<close>

theorem pooled_average_raises_on_zero_total:
  "(\<exists>s. TrainModels example_world [example_net] (\<lambda>_. []) (\<lambda>_. [example_batch])
           [example_settings 1] ''out'' (Fin 1) False [] = Raised ZeroDivisionError s
        \<and> train_examples_per_net s = [0] \<and> avg_losses s = [PInf] \<and> train_log s = [])
   \<and> (\<exists>s. TrainModels example_world [example_net] (\<lambda>_. [example_batch]) (\<lambda>_. [])
           [example_settings 1] ''out'' (Fin 1) False [] = Raised ZeroDivisionError s
        \<and> validation_examples s = [0] \<and> validation_avg_losses s = [PInf] \<and> train_log s = [])"
  by (simp add: TrainModels_def run_epochs_def step_defs example_defs with_value_def)

text \<open>
  Claim C2.  The random draws lie in the interval from 0 (included) to 1 (excluded).
  With \<open>batch_use_prob = 0.0\<close>, no call of a run of \<open>TrainModels\<close> is a backward pass
  or an optimizer step, and a training phase leaves the models as they were and the
  accumulators of every model at zero, so that the per-model average training losses are
  all plus infinity.  With \<open>batch_use_prob = 1.0\<close>, a training phase that completes has
  made every model train on every batch, in order, and the example count of every model
  is the number of examples of all the batches; it completes when every batch is well
  formed and every model has its settings.
\<close>

theorem batch_use_prob_boundaries:
  fixes s :: "'p state"
  assumes "\<forall>k. 0 \<le> uniform w k \<and> uniform w k < 1"
  shows "list_all (\<lambda>ev. \<not> is_gradient_step ev)
           (trace (state_of
              (TrainModels w nets0 train_loader val_loader ts out_prefix (Fin 0) print_log log_dir)))
    \<and> (let t = state_of (training_phase w ts (Fin 0) ni nl batches s)
       in nets t = nets s
          \<and> train_examples_per_net t = replicate (length (nets s)) 0
          \<and> running_losses t = replicate (length (nets s)) (Fin 0)
          \<and> AverageLosses (running_losses t) (train_examples_per_net t)
              = Inr (replicate (length (nets s)) PInf))
    \<and> (0 \<le> ni \<longrightarrow> training_phase w ts (Fin 1) ni nl batches s = Ok s' \<longrightarrow>
          train_examples_per_net s' = replicate (length (nets s)) (dataset_size w batches)
          \<and> trace s' = trace s @ map ZeroGrad [0..<length ts]
              @ concat (map (\<lambda>batch. concat (map train_events [0..<length (nets s)])) batches))
    \<and> (length (nets s) \<le> length ts \<and> (\<forall>batch \<in> set batches. well_formed_batch ni nl batch)
          \<longrightarrow> (\<exists>s''. training_phase w ts (Fin 1) ni nl batches s = Ok s''))"
proof -
  have lo: "\<forall>k. 0 \<le> uniform w k" and hi: "\<forall>k. uniform w k < 1" using assms by simp_all
  have a: "list_all (\<lambda>ev. \<not> is_gradient_step ev)
           (trace (state_of
              (TrainModels w nets0 train_loader val_loader ts out_prefix (Fin 0) print_log log_dir)))"
    by (rule TrainModels_calls) (simp_all add: training_phase_never_advances [OF lo])
  obtain d where t: "state_of (training_phase w ts (Fin 0) ni nl batches s)
                       = (epoch_reset ts s)\<lparr>draws := d\<rparr>"
    using training_phase_never [OF lo] by blast
  have b: "let t = state_of (training_phase w ts (Fin 0) ni nl batches s)
       in nets t = nets s
          \<and> train_examples_per_net t = replicate (length (nets s)) 0
          \<and> running_losses t = replicate (length (nets s)) (Fin 0)
          \<and> AverageLosses (running_losses t) (train_examples_per_net t)
              = Inr (replicate (length (nets s)) PInf)"
    unfolding t Let_def by (simp add: epoch_reset_def emit_def average_of_nothing)
  have c: "0 \<le> ni \<longrightarrow> training_phase w ts (Fin 1) ni nl batches s = Ok s' \<longrightarrow>
          train_examples_per_net s' = replicate (length (nets s)) (dataset_size w batches)
          \<and> trace s' = trace s @ map ZeroGrad [0..<length ts]
              @ concat (map (\<lambda>batch. concat (map train_events [0..<length (nets s)])) batches)"
  proof (intro impI)
    assume ni: "0 \<le> ni" and run: "training_phase w ts (Fin 1) ni nl batches s = Ok s'"
    let ?r = "epoch_reset ts s"
    have loop: "for_each batches (train_on_batch w ts (Fin 1) ni nl) ?r = Ok s'"
      using run by (simp add: training_phase_def)
    have "length (nets s') = length (nets ?r)
      \<and> trace s' = trace ?r
          @ concat (map (\<lambda>b. concat (map train_events [0..<length (nets ?r)])) batches)
      \<and> length (train_examples_per_net s') = length (nets ?r)
      \<and> (\<forall>j < length (nets ?r).
            train_examples_per_net s' ! j
              = train_examples_per_net ?r ! j + dataset_size w batches)"
      using loop hi ni by (rule train_batches_Ok) (simp add: epoch_reset_def emit_def)
    then have r: "trace s' = trace s @ map ZeroGrad [0..<length ts]
          @ concat (map (\<lambda>b. concat (map train_events [0..<length (nets s)])) batches)"
      "length (train_examples_per_net s') = length (nets s)"
      "\<And>j. j < length (nets s) \<Longrightarrow> train_examples_per_net s' ! j = dataset_size w batches"
      by (simp_all add: epoch_reset_def emit_def)
    have "train_examples_per_net s' = replicate (length (nets s)) (dataset_size w batches)"
      using r(2,3) by (intro nth_equalityI) simp_all
    with r(1) show "train_examples_per_net s' = replicate (length (nets s)) (dataset_size w batches)
          \<and> trace s' = trace s @ map ZeroGrad [0..<length ts]
              @ concat (map (\<lambda>batch. concat (map train_events [0..<length (nets s)])) batches)"
      by simp
  qed
  have d: "length (nets s) \<le> length ts \<and> (\<forall>batch \<in> set batches. well_formed_batch ni nl batch)
          \<longrightarrow> (\<exists>s''. training_phase w ts (Fin 1) ni nl batches s = Ok s'')"
    using training_phase_succeeds [of s ts batches ni nl w "Fin 1"] by blast
  from a b c d show ?thesis by blast
qed

theorem batch_use_prob_boundaries_witness:
  "(\<forall>k. 0 \<le> uniform example_world k \<and> uniform example_world k < 1)
   \<and> (0::int) \<le> 1
   \<and> length (nets (initial_state [example_net, example_net] []))
       \<le> length [example_settings 1, example_settings 1]
   \<and> well_formed_batch 1 1 example_batch
   \<and> (\<exists>s'. training_phase example_world [example_settings 1, example_settings 1] (Fin 1) 1 1
              [example_batch, example_batch] (initial_state [example_net, example_net] []) = Ok s'
          \<and> train_examples_per_net s' = [4, 4])
   \<and> train_examples_per_net
        (state_of (training_phase example_world [example_settings 1, example_settings 1] (Fin 0)
           1 1 [example_batch, example_batch] (initial_state [example_net, example_net] [])))
       = [0, 0]"
proof -
  let ?s = "initial_state [example_net, example_net] [] :: nat state"
  let ?ts = "[example_settings 1, example_settings 1]"
  let ?bs = "[example_batch, example_batch]"
  have h0: "\<forall>k. 0 \<le> uniform example_world k \<and> uniform example_world k < 1"
    by (simp add: example_world_def)
  have h1: "(0::int) \<le> 1" by simp
  have h2: "length (nets ?s) \<le> length ?ts" by (simp add: initial_state_def)
  have h3: "\<forall>batch \<in> set ?bs. well_formed_batch 1 1 batch"
    by (simp add: well_formed_batch_def example_batch_def)
  note v = batch_use_prob_boundaries [OF h0, where s = ?s and ts = ?ts and ni = 1 and nl = 1
      and batches = ?bs]
  from v h2 h3 obtain s' where
    ok: "training_phase example_world ?ts (Fin 1) 1 1 ?bs ?s = Ok s'"
    by blast
  have n: "length (nets ?s) = 2" by (simp add: initial_state_def)
  have ds: "dataset_size example_world ?bs = 4"
    by (simp add: dataset_size_def batch_examples_def example_batch_def example_world_def)
  from v [where s' = s'] ok h1 have
    "train_examples_per_net s' = replicate (length (nets ?s)) (dataset_size example_world ?bs)"
    by blast
  then have one: "train_examples_per_net s' = [4, 4]"
    using n ds by (simp add: numeral_2_eq_2)
  from v have "train_examples_per_net
        (state_of (training_phase example_world ?ts (Fin 0) 1 1 ?bs ?s))
      = replicate (length (nets ?s)) 0"
    unfolding Let_def by blast
  then have zero: "train_examples_per_net
        (state_of (training_phase example_world ?ts (Fin 0) 1 1 ?bs ?s)) = [0, 0]"
    using n by (simp add: numeral_2_eq_2)
  have h4: "well_formed_batch 1 1 example_batch" using h3 by simp
  from h0 h1 h2 h4 ok one zero show ?thesis
    by (intro conjI exI [of _ s']) assumption+
qed



text \<open>
  Claim C8.  A validation phase that completes has called \<open>eval()\<close> on every model
  before the first forward pass and \<open>train()\<close> on every model after the last one, so
  that every model ends in training mode; in between, every model has made one forward
  pass on every batch, in evaluation mode, with no random draw; and the accumulators,
  started from zero, hold for every model the number of examples of all the batches and
  the sum of its losses on them.  The phase completes when every batch is well formed
  and every model has its settings.
\<close>

theorem validation_pass:
  fixes s :: "'p state"
  assumes "0 \<le> ni"
  shows "(validation_phase w ts ni nl batches s = Ok s' \<longrightarrow>
            nets s' = map (\<lambda>net. net\<lparr>training := True\<rparr>) (nets s)
          \<and> draws s' = draws s
          \<and> trace s' = trace s @ map EvalCall [0..<length (nets s)]
                        @ concat (map (\<lambda>batch. map Forward [0..<length (nets s)]) batches)
                        @ map TrainCall [0..<length (nets s)]
          \<and> validation_examples s' = replicate (length (nets s)) (dataset_size w batches)
          \<and> length (validation_total_losses s') = length (nets s)
          \<and> (\<forall>i < length (nets s).
                validation_total_losses s' ! i
                  = weighted_loss_sum w (ts ! i) (params (nets s ! i)) False ni nl batches))
       \<and> (length (nets s) \<le> length ts \<and> (\<forall>batch \<in> set batches. well_formed_batch ni nl batch)
            \<longrightarrow> (\<exists>s''. validation_phase w ts ni nl batches s = Ok s''))"
proof (rule conjI [OF impI impI])
  assume run: "validation_phase w ts ni nl batches s = Ok s'"
  let ?r = "validation_reset s"
  from run obtain t where loop: "for_each batches (validate_on_batch w ts ni nl) ?r = Ok t"
    and s': "s' = fold (set_training True) [0..<length (nets t)] t"
    by (auto simp: validation_phase_def and_then_def split: outcome.splits)
  have "nets t = nets ?r \<and> draws t = draws ?r
    \<and> trace t = trace ?r @ concat (map (\<lambda>b. map Forward [0..<length (nets ?r)]) batches)
    \<and> length (validation_examples t) = length (nets ?r)
    \<and> length (validation_total_losses t) = length (nets ?r)
    \<and> (\<forall>j < length (nets ?r).
          validation_examples t ! j = validation_examples ?r ! j + dataset_size w batches)
    \<and> (\<forall>j < length (nets ?r).
          validation_total_losses t ! j =
            foldl (accumulate w (ts ! j) (params (nets ?r ! j)) (training (nets ?r ! j)) ni nl)
              (validation_total_losses ?r ! j) batches)"
    using loop assms by (rule validate_batches_Ok) (simp_all add: validation_reset_result)
  then have t: "nets t = map (\<lambda>n. n\<lparr>training := False\<rparr>) (nets s)" "draws t = draws s"
    "trace t = trace s @ map EvalCall [0..<length (nets s)]
                 @ concat (map (\<lambda>b. map Forward [0..<length (nets s)]) batches)"
    "length (validation_examples t) = length (nets s)"
    "length (validation_total_losses t) = length (nets s)"
    "\<And>j. j < length (nets s) \<Longrightarrow> validation_examples t ! j = dataset_size w batches"
    "\<And>j. j < length (nets s) \<Longrightarrow>
       validation_total_losses t ! j
         = weighted_loss_sum w (ts ! j) (params (nets s ! j)) False ni nl batches"
    by (simp_all add: validation_reset_result weighted_loss_sum_def)
  have ex: "validation_examples t = replicate (length (nets s)) (dataset_size w batches)"
    using t(4,6) by (intro nth_equalityI) simp_all
  show "nets s' = map (\<lambda>net. net\<lparr>training := True\<rparr>) (nets s)
          \<and> draws s' = draws s
          \<and> trace s' = trace s @ map EvalCall [0..<length (nets s)]
                        @ concat (map (\<lambda>batch. map Forward [0..<length (nets s)]) batches)
                        @ map TrainCall [0..<length (nets s)]
          \<and> validation_examples s' = replicate (length (nets s)) (dataset_size w batches)
          \<and> length (validation_total_losses s') = length (nets s)
          \<and> (\<forall>i < length (nets s).
                validation_total_losses s' ! i
                  = weighted_loss_sum w (ts ! i) (params (nets s ! i)) False ni nl batches)"
    unfolding s' set_training_all
    using t(1,2,3,5,7) ex by (simp add: comp_def)
next
  assume "length (nets s) \<le> length ts \<and> (\<forall>batch \<in> set batches. well_formed_batch ni nl batch)"
  then have le: "length (nets s) \<le> length ts"
    and wf: "\<And>b. b \<in> set batches \<Longrightarrow> well_formed_batch ni nl b" by simp_all
  let ?r = "validation_reset s"
  have "\<exists>t. for_each batches (validate_on_batch w ts ni nl) ?r = Ok t \<and> nets t = nets ?r"
  proof (rule for_each_succeeds [where I = "\<lambda>u. nets u = nets ?r"])
    fix x and u :: "'p state"
    assume x: "x \<in> set batches" and u: "nets u = nets ?r"
    have "length (nets u) \<le> length ts" using u le by (simp add: validation_reset_result)
    then obtain t where "validate_on_batch w ts ni nl x u = Ok t" "nets t = nets u"
      using validate_on_batch_succeeds [OF wf [OF x]] by blast
    with u show "\<exists>u'. validate_on_batch w ts ni nl x u = Ok u' \<and> nets u' = nets ?r" by simp
  qed simp
  then show "\<exists>s''. validation_phase w ts ni nl batches s = Ok s''"
    by (auto simp: validation_phase_def)
qed

theorem validation_pass_witness:
  "(0::int) \<le> 1
   \<and> length (nets (initial_state [example_net, example_net] [])) \<le> length [example_settings 1, example_settings 1]
   \<and> well_formed_batch 1 1 example_batch
   \<and> (\<exists>s'. validation_phase example_world [example_settings 1, example_settings 1] 1 1
              [example_batch, example_batch] (initial_state [example_net, example_net] []) = Ok s'
          \<and> validation_examples s' = [4, 4]
          \<and> map training (nets s') = [True, True]
          \<and> trace s' = [EvalCall 0, EvalCall 1, Forward 0, Forward 1, Forward 0, Forward 1,
                         TrainCall 0, TrainCall 1])"
proof -
  let ?s = "initial_state [example_net, example_net] [] :: nat state"
  let ?ts = "[example_settings 1, example_settings 1]"
  note v = validation_pass [of 1 example_world ?ts 1 "[example_batch, example_batch]" ?s]
  have h1: "(0::int) \<le> 1" by simp
  have h2: "length (nets ?s) \<le> length ?ts" by (simp add: initial_state_def)
  have h3: "\<forall>batch \<in> set [example_batch, example_batch]. well_formed_batch 1 1 batch"
    by (simp add: well_formed_batch_def example_batch_def)
  from v [OF h1] h2 h3 obtain s' where
    ok: "validation_phase example_world ?ts 1 1 [example_batch, example_batch] ?s = Ok s'"
    by blast
  have n: "length (nets ?s) = 2" by (simp add: initial_state_def)
  have ds: "dataset_size example_world [example_batch, example_batch] = 4"
    by (simp add: dataset_size_def batch_examples_def example_batch_def example_world_def)
  from v [OF h1, of s'] ok have r:
    "nets s' = map (\<lambda>net. net\<lparr>training := True\<rparr>) (nets ?s)"
    "trace s' = trace ?s @ map EvalCall [0..<length (nets ?s)]
                        @ concat (map (\<lambda>batch. map Forward [0..<length (nets ?s)])
                                    [example_batch, example_batch])
                        @ map TrainCall [0..<length (nets ?s)]"
    "validation_examples s' = replicate (length (nets ?s))
        (dataset_size example_world [example_batch, example_batch])"
    by blast+
  have "validation_examples s' = [4, 4]"
    using r(3) n ds by (simp add: numeral_2_eq_2)
  moreover have "map training (nets s') = [True, True]"
    using r(1) by (simp add: initial_state_def)
  moreover have "trace s' = [EvalCall 0, EvalCall 1, Forward 0, Forward 1, Forward 0, Forward 1,
                         TrainCall 0, TrainCall 1]"
    using r(2) n by (simp add: initial_state_def numeral_2_eq_2)
  moreover have "well_formed_batch 1 1 example_batch" using h3 by simp
  ultimately show ?thesis using h1 h2 ok
    by (intro conjI exI [of _ s']) assumption+
qed

text \<open>
  Claim C9.  A run of \<open>TrainModels\<close> that completes has run the epochs
  \<open>0, ..., train_settings[0].epochs - 1\<close>, each to completion, and returns a training
  log with one record per epoch: the record at position \<open>k\<close> is the metrics of
  epoch \<open>k\<close>, and the log after \<open>k\<close> epochs is the first \<open>k\<close> records of the
  returned log.  The run reads the epoch count of the first settings only and the
  lengths of the name lists of the first model only: two runs whose settings differ in
  the epoch counts of other elements, and whose models differ in their name lists but
  not in the lengths of the name lists of the first model, make the same calls, return
  the same log and leave the models in the same learnable state and mode.
\<close>

theorem epochs_and_training_log:
  shows "(TrainModels w models train_loader val_loader ts out_prefix p print_log log_dir = Ok s
          \<longrightarrow>
          length (train_log s) = nat (epochs (hd ts))
          \<and> (\<forall>k \<le> nat (epochs (hd ts)). \<exists>s_k.
                run_epochs w train_loader val_loader ts out_prefix p print_log log_dir
                  (int (length (input_names (hd models)))) (int (length (label_names (hd models))))
                  k (initial_state models log_dir) = Ok s_k
                \<and> train_log s_k = take k (train_log s))
          \<and> (\<forall>k < nat (epochs (hd ts)). \<exists>s_k s_k'.
                run_epochs w train_loader val_loader ts out_prefix p print_log log_dir
                  (int (length (input_names (hd models)))) (int (length (label_names (hd models))))
                  k (initial_state models log_dir) = Ok s_k
                \<and> epoch_body w train_loader val_loader ts out_prefix p print_log log_dir
                  (int (length (input_names (hd models)))) (int (length (label_names (hd models))))
                  k s_k = Ok s_k'
                \<and> train_log s ! k = epoch_metrics s_k'))
       \<and> (map forget_epochs ts = map forget_epochs ts' \<and> epochs (hd ts) = epochs (hd ts')
          \<and> map forget_names models = map forget_names models'
          \<and> length (input_names (hd models)) = length (input_names (hd models'))
          \<and> length (label_names (hd models)) = length (label_names (hd models'))
          \<longrightarrow>
          map_outcome forget
            (TrainModels w models train_loader val_loader ts out_prefix p print_log log_dir)
          = map_outcome forget
              (TrainModels w models' train_loader val_loader ts' out_prefix p print_log log_dir))"
proof (rule conjI [OF impI impI])
  assume run: "TrainModels w models train_loader val_loader ts out_prefix p print_log log_dir = Ok s"
  let ?s0 = "initial_state models log_dir"
  from run obtain s_e where
    e: "run_epochs w train_loader val_loader ts out_prefix p print_log log_dir
       (int (length (input_names (hd models)))) (int (length (label_names (hd models))))
       (nat (epochs (hd ts))) ?s0 = Ok s_e"
    and s: "s = fold (save_last out_prefix) [0..<length (nets s_e)] s_e"
    by (rule TrainModels_Ok)
  have log: "train_log s = train_log s_e" by (simp add: s save_last_all_log)
  have "train_log ?s0 = []" by (simp add: initial_state_def)
  with run_epochs_log [OF e] log
  show "length (train_log s) = nat (epochs (hd ts))
          \<and> (\<forall>k \<le> nat (epochs (hd ts)). \<exists>s_k.
                run_epochs w train_loader val_loader ts out_prefix p print_log log_dir
                  (int (length (input_names (hd models)))) (int (length (label_names (hd models))))
                  k (initial_state models log_dir) = Ok s_k
                \<and> train_log s_k = take k (train_log s))
          \<and> (\<forall>k < nat (epochs (hd ts)). \<exists>s_k s_k'.
                run_epochs w train_loader val_loader ts out_prefix p print_log log_dir
                  (int (length (input_names (hd models)))) (int (length (label_names (hd models))))
                  k (initial_state models log_dir) = Ok s_k
                \<and> epoch_body w train_loader val_loader ts out_prefix p print_log log_dir
                  (int (length (input_names (hd models)))) (int (length (label_names (hd models))))
                  k s_k = Ok s_k'
                \<and> train_log s ! k = epoch_metrics s_k')"
    by simp
next
  assume "map forget_epochs ts = map forget_epochs ts' \<and> epochs (hd ts) = epochs (hd ts')
          \<and> map forget_names models = map forget_names models'
          \<and> length (input_names (hd models)) = length (input_names (hd models'))
          \<and> length (label_names (hd models)) = length (label_names (hd models'))"
  then have ts: "map forget_epochs ts = map forget_epochs ts'"
    and ep: "epochs (hd ts) = epochs (hd ts')"
    and ns: "map forget_names models = map forget_names models'"
    and ni: "length (input_names (hd models)) = length (input_names (hd models'))"
    and nl: "length (label_names (hd models)) = length (label_names (hd models'))"
    by simp_all
  have e1: "ts = [] \<longleftrightarrow> ts' = []" using ts by (metis map_is_Nil_conv)
  have e2: "models = [] \<longleftrightarrow> models' = []" using ns by (metis map_is_Nil_conv)
  show "map_outcome forget
            (TrainModels w models train_loader val_loader ts out_prefix p print_log log_dir)
          = map_outcome forget
              (TrainModels w models' train_loader val_loader ts' out_prefix p print_log log_dir)"
    unfolding TrainModels_forget
    using e1 e2 ep ns ni nl by (simp add: run_epochs_settings [OF ts])
qed

theorem epochs_and_training_log_witness:
  "(\<exists>s. TrainModels example_world [example_net, example_net] (\<lambda>_. [example_batch])
          (\<lambda>_. [example_batch]) [example_settings 2, example_settings 2] ''out'' (Fin 1) False []
        = Ok s
      \<and> length (train_log s) = 2)
   \<and> map forget_epochs [example_settings 2, example_settings 2]
       = map forget_epochs [example_settings 2, example_settings 7]
   \<and> map forget_names [example_net, example_net]
       = map forget_names [example_net, example_net\<lparr>input_names := [''a'', ''b'']\<rparr>]
   \<and> map_outcome forget
        (TrainModels example_world [example_net, example_net] (\<lambda>_. [example_batch])
           (\<lambda>_. [example_batch]) [example_settings 2, example_settings 2] ''out'' (Fin 1) False [])
     = map_outcome forget
        (TrainModels example_world [example_net, example_net\<lparr>input_names := [''a'', ''b'']\<rparr>]
           (\<lambda>_. [example_batch]) (\<lambda>_. [example_batch])
           [example_settings 2, example_settings 7] ''out'' (Fin 1) False [])"
proof -
  let ?ts = "[example_settings 2, example_settings 2]"
  let ?ts' = "[example_settings 2, example_settings 7]"
  let ?ns = "[example_net, example_net]"
  let ?ns' = "[example_net, example_net\<lparr>input_names := [''a'', ''b'']\<rparr>]"
  note c = epochs_and_training_log [where w = example_world and models = ?ns and models' = ?ns'
      and ts = ?ts and ts' = ?ts' and train_loader = "\<lambda>_. [example_batch]"
      and val_loader = "\<lambda>_. [example_batch]" and out_prefix = "''out''" and p = "Fin 1"
      and print_log = False and log_dir = "[]"]
  obtain s where ok: "TrainModels example_world ?ns (\<lambda>_. [example_batch])
          (\<lambda>_. [example_batch]) ?ts ''out'' (Fin 1) False [] = Ok s"
    by (simp add: TrainModels_def run_epochs_def step_defs example_defs with_value_def
          numeral_2_eq_2)
  from c [where s = s] ok have "length (train_log s) = nat (epochs (hd ?ts))" by blast
  then have len: "length (train_log s) = 2" by (simp add: example_settings_def)
  have h1: "map forget_epochs ?ts = map forget_epochs ?ts'"
    by (simp add: forget_epochs_def example_settings_def)
  have h2: "map forget_names ?ns = map forget_names ?ns'"
    by (simp add: forget_names_def example_net_def)
  have h3: "epochs (hd ?ts) = epochs (hd ?ts')"
    "length (input_names (hd ?ns)) = length (input_names (hd ?ns'))"
    "length (label_names (hd ?ns)) = length (label_names (hd ?ns'))"
    by simp_all
  from c h1 h2 h3 have "map_outcome forget
        (TrainModels example_world ?ns (\<lambda>_. [example_batch])
           (\<lambda>_. [example_batch]) ?ts ''out'' (Fin 1) False [])
     = map_outcome forget
        (TrainModels example_world ?ns' (\<lambda>_. [example_batch]) (\<lambda>_. [example_batch])
           ?ts' ''out'' (Fin 1) False [])"
    by blast
  with ok len h1 h2 show ?thesis by blast
qed

section \<open>The weighted mean squared error, proved\<close>

subsection \<open>Positions and multi-indices\<close>

lemma length_unravel [simp]: "length (unravel sh j) = length sh"
  by (induction sh arbitrary: j) simp_all

lemma unravel_valid: "j < prod_list sh \<Longrightarrow> list_all2 (<) (unravel sh j) sh"
proof (induction sh arbitrary: j)
  case Nil
  show ?case by simp
next
  case (Cons d ds)
  have P: "0 < prod_list ds" using Cons.prems by (cases "prod_list ds = 0") simp_all
  have "j div prod_list ds < d" using Cons.prems by (simp add: less_mult_imp_div_less)
  moreover have "j mod prod_list ds < prod_list ds" using P by simp
  ultimately show ?case using Cons.IH by simp
qed

lemma ravel_unravel: "j < prod_list sh \<Longrightarrow> ravel sh (unravel sh j) = j"
proof (induction sh arbitrary: j)
  case Nil
  then show ?case by simp
next
  case (Cons d ds)
  have P: "0 < prod_list ds" using Cons.prems by (cases "prod_list ds = 0") simp_all
  then have "j mod prod_list ds < prod_list ds" by simp
  then have "ravel ds (unravel ds (j mod prod_list ds)) = j mod prod_list ds" by (rule Cons.IH)
  then show ?case by simp
qed

lemma ravel_bound: "list_all2 (<) idx sh \<Longrightarrow> ravel sh idx < prod_list sh"
proof (induction idx sh rule: list_all2_induct)
  case Nil
  show ?case by simp
next
  case (Cons i idx d sh)
  have "i * prod_list sh + ravel sh idx < Suc i * prod_list sh" using Cons.IH by simp
  also have "\<dots> \<le> d * prod_list sh" using Cons.hyps(1) by (intro mult_le_mono1) simp
  finally show ?case by simp
qed

lemma unravel_ravel: "list_all2 (<) idx sh \<Longrightarrow> unravel sh (ravel sh idx) = idx"
proof (induction idx sh rule: list_all2_induct)
  case Nil
  show ?case by simp
next
  case (Cons i idx d sh)
  have r: "ravel sh idx < prod_list sh" using Cons.hyps(2) by (rule ravel_bound)
  then show ?case using Cons.IH by simp
qed

lemma indices_unravel: "indices sh = map (unravel sh) [0..<prod_list sh]"
proof (induction sh)
  case Nil
  show ?case by simp
next
  case (Cons d ds)
  let ?P = "prod_list ds"
  have row: "map (unravel (d # ds)) [i * ?P..<i * ?P + ?P] = map ((#) i) (indices ds)" for i
  proof -
    have "[i * ?P..<i * ?P + ?P] = map (\<lambda>k. i * ?P + k) [0..<?P]"
      by (simp add: map_add_upt add.commute)
    then have "map (unravel (d # ds)) [i * ?P..<i * ?P + ?P]
        = map (\<lambda>k. unravel (d # ds) (i * ?P + k)) [0..<?P]"
      by (simp add: comp_def)
    also have "\<dots> = map (\<lambda>k. i # unravel ds k) [0..<?P]"
      by (rule map_cong) simp_all
    finally show ?thesis by (simp add: Cons.IH comp_def)
  qed
  have "map (unravel (d # ds)) [0..<n * ?P]
      = concat (map (\<lambda>i. map ((#) i) (indices ds)) [0..<n])" for n
  proof (induction n)
    case 0
    show ?case by simp
  next
    case (Suc n)
    have "[0..<Suc n * ?P] = [0..<n * ?P] @ [n * ?P..<n * ?P + ?P]"
      using upt_add_eq_append [of 0 "n * ?P" ?P] by (simp add: add.commute)
    then have "map (unravel (d # ds)) [0..<Suc n * ?P]
        = map (unravel (d # ds)) [0..<n * ?P] @ map (unravel (d # ds)) [n * ?P..<n * ?P + ?P]"
      by (simp only: map_append)
    also have "\<dots> = concat (map (\<lambda>i. map ((#) i) (indices ds)) [0..<n])
                     @ map ((#) n) (indices ds)"
      by (simp only: Suc row)
    also have "\<dots> = concat (map (\<lambda>i. map ((#) i) (indices ds)) [0..<Suc n])"
      by simp
    finally show ?case .
  qed
  from this [of d] show ?case by (simp only: indices.simps prod_list.Cons)
qed


subsection \<open>Broadcasting\<close>

lemma broadcast_index_same: 
  assumes "list_all2 (<) idx sh"
  shows "broadcast_index sh idx = idx"
proof -
  have len: "length idx = length sh" using assms by (rule list_all2_lengthD)
  have "map2 (\<lambda>d i. if d = 1 then 0 else i) sh idx = idx"
    using assms by (induction idx sh rule: list_all2_induct) auto
  then show ?thesis by (simp add: broadcast_index_def len)
qed

lemma length_broadcast_index:
  "length sh \<le> length idx \<Longrightarrow> length (broadcast_index sh idx) = length sh"
  by (simp add: broadcast_index_def)

lemma nth_broadcast_index:
  "length sh \<le> length idx \<Longrightarrow> k < length sh \<Longrightarrow>
   broadcast_index sh idx ! k
     = (if sh ! k = 1 then 0 else idx ! (length idx - length sh + k))"
  by (simp add: broadcast_index_def)

lemma expandable_length: "expandable sh target \<Longrightarrow> length sh \<le> length target"
  by (simp add: expandable_def)

lemma expandable_nth:
  "expandable sh target \<Longrightarrow> k < length sh \<Longrightarrow>
   sh ! k = target ! (length target - length sh + k) \<or> sh ! k = 1"
  by (auto simp: expandable_def list_all2_conv_all_nth)

lemma expandable_same: "expandable sh sh"
  by (simp add: expandable_def list_all2_same)

lemma broadcast_index_in_range:
  assumes e: "expandable sh target" and v: "list_all2 (<) idx target"
  shows "list_all2 (<) (broadcast_index sh idx) sh"
proof -
  have len: "length idx = length target" using v by (rule list_all2_lengthD)
  have le: "length sh \<le> length idx" using e len by (simp add: expandable_def)
  have "broadcast_index sh idx ! k < sh ! k" if k: "k < length sh" for k
  proof (cases "sh ! k = 1")
    case True
    then show ?thesis using le k by (simp add: nth_broadcast_index)
  next
    case False
    then have "sh ! k = target ! (length target - length sh + k)"
      using expandable_nth [OF e k] by simp
    moreover have "idx ! (length target - length sh + k) < target ! (length target - length sh + k)"
      using v le k len by (simp add: list_all2_conv_all_nth)
    ultimately show ?thesis using False le k len by (simp add: nth_broadcast_index)
  qed
  then show ?thesis using le by (simp add: list_all2_conv_all_nth length_broadcast_index)
qed

lemma broadcast_index_compose:
  assumes e: "expandable sh mid" and le: "length mid \<le> length idx"
  shows "broadcast_index sh (broadcast_index mid idx) = broadcast_index sh idx"
proof (rule nth_equalityI)
  have l1: "length sh \<le> length mid" using e by (rule expandable_length)
  have l2: "length (broadcast_index mid idx) = length mid"
    using le by (rule length_broadcast_index)
  show "length (broadcast_index sh (broadcast_index mid idx)) = length (broadcast_index sh idx)"
    using l1 l2 le by (simp add: length_broadcast_index)
  fix k
  assume "k < length (broadcast_index sh (broadcast_index mid idx))"
  then have k: "k < length sh" using l1 l2 by (simp add: length_broadcast_index)
  show "broadcast_index sh (broadcast_index mid idx) ! k = broadcast_index sh idx ! k"
  proof (cases "sh ! k = 1")
    case True
    then show ?thesis using k l1 l2 le by (simp add: nth_broadcast_index)
  next
    case False
    then have m: "mid ! (length mid - length sh + k) \<noteq> 1"
      using expandable_nth [OF e k] by simp
    have "broadcast_index mid idx ! (length mid - length sh + k)
            = idx ! (length idx - length mid + (length mid - length sh + k))"
      using m k l1 le by (simp add: nth_broadcast_index)
    also have "length idx - length mid + (length mid - length sh + k)
                 = length idx - length sh + k"
      using l1 le by simp
    finally show ?thesis using False k l1 l2 le by (simp add: nth_broadcast_index)
  qed
qed

text \<open>The elements of an expanded tensor.\<close>

lemma expand_elements:
  assumes x: "expand t target = Inr t'" and w: "well_shaped t"
  shows "shape t' = target" and "length (elems t') = prod_list target"
    and "\<forall>j < prod_list target. elems t' ! j = element t (unravel target j)"
proof -
  show "shape t' = target" "length (elems t') = prod_list target"
    using x w by (auto simp: expand_def well_shaped_def split: if_splits)
  show "\<forall>j < prod_list target. elems t' ! j = element t (unravel target j)"
  proof (intro allI impI)
    fix j
    assume j: "j < prod_list target"
    show "elems t' ! j = element t (unravel target j)"
    proof (cases "shape t = target")
      case True
      then have "t' = t" using x by (simp add: expand_def)
      moreover have "broadcast_index target (unravel target j) = unravel target j"
        using unravel_valid [OF j] by (rule broadcast_index_same)
      ultimately show ?thesis using True j by (simp add: element_def ravel_unravel)
    next
      case False
      then show ?thesis
        using x j
        by (auto simp: expand_def element_def source_index_def broadcast_index_def
              split: if_splits)
    qed
  qed
qed

lemma expand_succeeds:
  assumes "expandable (shape t) target"
  shows "\<exists>t'. expand t target = Inr t'"
  using assms by (simp add: expand_def)

lemma pad_nth:
  "k < length a \<Longrightarrow> (replicate (n - length a) (1 :: nat) @ a) ! (n - length a + k) = a ! k"
  by (simp add: nth_append)

lemma broadcast_shapes_expandable:
  assumes "broadcast_shapes a b = Some sh"
  shows "expandable a sh" and "expandable b sh" and "length sh = max (length a) (length b)"
proof -
  let ?n = "max (length a) (length b)"
  let ?a = "replicate (?n - length a) 1 @ a"
  let ?b = "replicate (?n - length b) 1 @ b"
  have c: "list_all2 (\<lambda>x y. x = y \<or> x = 1 \<or> y = 1) ?a ?b"
    and sh: "sh = map2 (\<lambda>x y. if x = 1 then y else x) ?a ?b"
    using assms by (auto simp: broadcast_shapes_def Let_def split: if_splits)
  have la: "length ?a = ?n" and lb: "length ?b = ?n" by simp_all
  show len: "length sh = ?n" unfolding sh by simp
  have nth: "sh ! i = (if ?a ! i = 1 then ?b ! i else ?a ! i)" if "i < ?n" for i
    unfolding sh using that la lb by simp
  have rel: "?a ! i = ?b ! i \<or> ?a ! i = 1 \<or> ?b ! i = 1" if "i < ?n" for i
    using c that la by (simp add: list_all2_conv_all_nth)
  have "a ! k = sh ! (?n - length a + k) \<or> a ! k = 1" if k: "k < length a" for k
  proof -
    have i: "?n - length a + k < ?n" using k by simp
    show ?thesis using nth [OF i] pad_nth [OF k, of ?n] by auto
  qed
  then show "expandable a sh"
    using len by (simp add: expandable_def list_all2_conv_all_nth)
  have "b ! k = sh ! (?n - length b + k) \<or> b ! k = 1" if k: "k < length b" for k
  proof -
    have i: "?n - length b + k < ?n" using k by simp
    show ?thesis using nth [OF i] rel [OF i] pad_nth [OF k, of ?n] by auto
  qed
  then show "expandable b sh"
    using len by (simp add: expandable_def list_all2_conv_all_nth)
qed

lemma broadcast_shapes_expanded:
  assumes e: "expandable b sh"
  shows "broadcast_shapes sh b = Some sh"
proof -
  have le: "length b \<le> length sh" using e by (rule expandable_length)
  let ?b = "replicate (length sh - length b) 1 @ b"
  have lb: "length ?b = length sh" using le by simp
  have b: "?b ! i = sh ! i \<or> ?b ! i = 1" if i: "i < length sh" for i
  proof (cases "i < length sh - length b")
    case True
    then show ?thesis by (simp add: nth_append)
  next
    case False
    let ?k = "i - (length sh - length b)"
    have k: "?k < length b" using False i le by simp
    have "length sh - length b + ?k = i" using False by simp
    then show ?thesis using expandable_nth [OF e k] pad_nth [OF k, of "length sh"] by auto
  qed
  have c: "list_all2 (\<lambda>x y. x = y \<or> x = 1 \<or> y = 1) sh ?b"
    unfolding list_all2_conv_all_nth
  proof (intro conjI allI impI)
    show "length sh = length ?b" using lb by simp
    fix i
    assume "i < length sh"
    from b [OF this] show "sh ! i = ?b ! i \<or> sh ! i = 1 \<or> ?b ! i = 1" by auto
  qed
  have "map2 (\<lambda>x y. if x = 1 then y else x) sh ?b = sh"
  proof (rule nth_equalityI)
    show "length (map2 (\<lambda>x y. if x = 1 then y else x) sh ?b) = length sh" using lb by simp
    fix i
    assume "i < length (map2 (\<lambda>x y. if x = 1 then y else x) sh ?b)"
    then have i: "i < length sh" using lb by simp
    then show "map2 (\<lambda>x y. if x = 1 then y else x) sh ?b ! i = sh ! i"
      using b [OF i] lb by auto
  qed
  with c le show ?thesis by (simp add: broadcast_shapes_def Let_def max_absorb1)
qed


lemma broadcast_shapes_same: "broadcast_shapes sh sh = Some sh"
  by (rule broadcast_shapes_expanded [OF expandable_same])

text \<open>Reading a tensor that is broadcast to a shape it expands to.\<close>

lemma element_position:
  assumes "expandable (shape t) target" and "list_all2 (<) idx target" and "well_shaped t"
  shows "ravel (shape t) (broadcast_index (shape t) idx) < length (elems t)"
  using ravel_bound [OF broadcast_index_in_range [OF assms(1,2)]] assms(3)
  by (simp add: well_shaped_def)

lemma element_own:
  assumes "shape t = sh" and "j < prod_list sh"
  shows "element t (unravel sh j) = elems t ! j"
  using assms broadcast_index_same [OF unravel_valid [OF assms(2)]]
  by (simp add: element_def ravel_unravel)

lemma element_expand:
  assumes x: "expand t mid = Inr t'" and w: "well_shaped t"
    and e1: "expandable (shape t) mid" and e2: "expandable mid target"
    and v: "list_all2 (<) idx target"
  shows "element t' idx = element t idx"
proof -
  note el = expand_elements [OF x w]
  let ?m = "broadcast_index mid idx"
  have vm: "list_all2 (<) ?m mid" using e2 v by (rule broadcast_index_in_range)
  have k: "ravel mid ?m < prod_list mid" using vm by (rule ravel_bound)
  have le: "length mid \<le> length idx"
    using expandable_length [OF e2] list_all2_lengthD [OF v] by simp
  have "element t' idx = elems t' ! ravel mid ?m" using el(1) by (simp add: element_def)
  also have "\<dots> = element t (unravel mid (ravel mid ?m))" using el(3) k by simp
  also have "\<dots> = element t ?m" using unravel_ravel [OF vm] by simp
  also have "\<dots> = element t idx"
    using broadcast_index_compose [OF e1 le] by (simp add: element_def)
  finally show ?thesis .
qed

text \<open>The elements of the result of an elementwise operation.\<close>

lemma pointwise_elements:
  assumes b: "broadcast_shapes (shape a) (shape b) = Some sh"
    and wa: "well_shaped a" and wb: "well_shaped b"
  shows "\<exists>c. pointwise f a b = Inr c \<and> shape c = sh \<and> length (elems c) = prod_list sh
    \<and> (\<forall>j < prod_list sh.
          elems c ! j = f (element a (unravel sh j)) (element b (unravel sh j)))"
proof -
  note e = broadcast_shapes_expandable [OF b]
  obtain a' where a': "expand a sh = Inr a'" using expand_succeeds [OF e(1)] ..
  obtain b' where b': "expand b sh = Inr b'" using expand_succeeds [OF e(2)] ..
  note ea = expand_elements [OF a' wa] and eb = expand_elements [OF b' wb]
  let ?c = "\<lparr>shape = sh, elems = map2 f (elems a') (elems b')\<rparr>"
  have "pointwise f a b = Inr ?c" by (simp add: pointwise_def b a' b')
  moreover have "length (elems ?c) = prod_list sh" using ea(2) eb(2) by simp
  moreover have "\<forall>j < prod_list sh.
      elems ?c ! j = f (element a (unravel sh j)) (element b (unravel sh j))"
    using ea(2,3) eb(2,3) by simp
  ultimately show ?thesis by simp
qed

lemma pointwise_no_shape:
  assumes "broadcast_shapes (shape a) (shape b) = None"
  shows "pointwise f a b = Inl RuntimeError"
  using assms by (simp add: pointwise_def)

lemma element_torch_neg:
  assumes "expandable (shape t) target" and "list_all2 (<) idx target" and "well_shaped t"
  shows "element (torch_neg t) idx = fneg (element t idx)"
  using element_position [OF assms] by (simp add: element_def torch_neg_def)

text \<open>The loss when the prediction and the label have a common shape.\<close>

lemma forward_broadcast:
  assumes wp: "well_shaped predicted" and wl: "well_shaped labels" and ww: "well_shaped weights"
    and ew: "expandable (shape weights) (shape labels)"
    and b: "broadcast_shapes (shape predicted) (shape labels) = Some sh"
  shows "WeightedMSELoss_forward predicted labels weights
           = Inr (fdiv (py_sum (map (weighted_square predicted labels weights) (indices sh)))
                    (Fin (real (prod_list sh))))"
proof -
  note e = broadcast_shapes_expandable [OF b]
  have wn: "well_shaped (torch_neg labels)" using wl by (simp add: well_shaped_def torch_neg_def)
  have bn: "broadcast_shapes (shape predicted) (shape (torch_neg labels)) = Some sh"
    using b by (simp add: torch_neg_def)
  obtain d where d: "torch_add predicted (torch_neg labels) = Inr d"
    and ds: "shape d = sh" and dl: "length (elems d) = prod_list sh"
    and de: "\<forall>j < prod_list sh. elems d ! j
               = fadd (element predicted (unravel sh j))
                   (element (torch_neg labels) (unravel sh j))"
    using pointwise_elements [OF bn wp wn, of fadd] unfolding torch_add_def by blast
  let ?q = "torch_pow_2 d"
  have wq: "well_shaped ?q" and qs: "shape ?q = sh"
    using ds dl by (simp_all add: well_shaped_def torch_pow_2_def)
  obtain x where x: "expand weights (shape labels) = Inr x"
    using expand_succeeds [OF ew] ..
  note xe = expand_elements [OF x ww]
  have wx: "well_shaped x" using xe(1,2) by (simp add: well_shaped_def)
  have bm: "broadcast_shapes (shape ?q) (shape x) = Some sh"
    using broadcast_shapes_expanded [OF e(2)] qs xe(1) by simp
  obtain m where m: "torch_mul ?q x = Inr m"
    and ml: "length (elems m) = prod_list sh"
    and me: "\<forall>j < prod_list sh. elems m ! j
               = fmul (element ?q (unravel sh j)) (element x (unravel sh j))"
    using pointwise_elements [OF bm wq wx, of fmul] unfolding torch_mul_def by blast
  have "elems m ! j = weighted_square predicted labels weights (unravel sh j)"
    if j: "j < prod_list sh" for j
  proof -
    note v = unravel_valid [OF j]
    have "element ?q (unravel sh j) = elems ?q ! j" using qs j by (rule element_own)
    also have "\<dots> = fmul (elems d ! j) (elems d ! j)"
      using j dl by (simp add: torch_pow_2_def)
    finally have q: "element ?q (unravel sh j) = fmul (elems d ! j) (elems d ! j)" .
    have n: "element (torch_neg labels) (unravel sh j) = fneg (element labels (unravel sh j))"
      using e(2) v wl by (rule element_torch_neg)
    have "element x (unravel sh j) = element weights (unravel sh j)"
      using x ww ew e(2) v by (rule element_expand)
    with q n de me j show ?thesis by (simp add: weighted_square_def Let_def)
  qed
  then have "elems m = map (weighted_square predicted labels weights) (indices sh)"
    using ml by (intro nth_equalityI) (simp_all add: indices_unravel)
  then have "torch_mean m
      = fdiv (py_sum (map (weighted_square predicted labels weights) (indices sh)))
          (Fin (real (prod_list sh)))"
    using ml by (simp add: torch_mean_def)
  then show ?thesis
    by (simp add: WeightedMSELoss_forward_def d expand_as_def x m Let_def)
qed

lemma forward_no_shape:
  assumes "broadcast_shapes (shape predicted) (shape labels) = None"
  shows "WeightedMSELoss_forward predicted labels weights = Inl RuntimeError"
proof -
  have "broadcast_shapes (shape predicted) (shape (torch_neg labels)) = None"
    using assms by (simp add: torch_neg_def)
  then have "torch_add predicted (torch_neg labels) = Inl RuntimeError"
    unfolding torch_add_def by (rule pointwise_no_shape)
  then show ?thesis by (simp add: WeightedMSELoss_forward_def)
qed

text \<open>The loss on three tensors of one shape, on the positions of their elements.\<close>

lemma forward_same_shape:
  assumes wp: "well_shaped predicted" and wl: "well_shaped labels" and ww: "well_shaped weights"
    and sp: "shape predicted = shape labels" and sw: "shape weights = shape labels"
  shows "WeightedMSELoss_forward predicted labels weights
           = Inr (fdiv (py_sum (map (\<lambda>j. let difference = fadd (elems predicted ! j)
                                                             (fneg (elems labels ! j))
                                         in fmul (fmul difference difference) (elems weights ! j))
                                  [0..<length (elems labels)]))
                    (Fin (real (length (elems labels)))))"
proof -
  let ?sh = "shape labels"
  have n: "length (elems labels) = prod_list ?sh" using wl by (simp add: well_shaped_def)
  have b: "broadcast_shapes (shape predicted) ?sh = Some ?sh"
    using sp by (simp add: broadcast_shapes_same)
  have ew: "expandable (shape weights) ?sh" using sw by (simp add: expandable_same)
  have "weighted_square predicted labels weights (unravel ?sh j)
          = (let difference = fadd (elems predicted ! j) (fneg (elems labels ! j))
             in fmul (fmul difference difference) (elems weights ! j))"
    if "j < prod_list ?sh" for j
    using element_own [OF sp that] element_own [OF sw that] element_own [OF refl that]
    by (simp add: weighted_square_def)
  then have "map (weighted_square predicted labels weights) (indices ?sh)
      = map (\<lambda>j. let difference = fadd (elems predicted ! j) (fneg (elems labels ! j))
                 in fmul (fmul difference difference) (elems weights ! j))
          [0..<prod_list ?sh]"
    by (simp add: indices_unravel)
  then show ?thesis
    using forward_broadcast [OF wp wl ww ew b] n by simp
qed


text \<open>
  Claim C7.  For every prediction, label and weight tensor whose weights expand to the
  shape of the labels, the loss is the mean, over all multi-indices of the common
  broadcast shape of prediction and label, of the squared difference of prediction and
  label there multiplied by the weight there, each of the three read by broadcasting:
  every squared difference is weighted before anything is summed.  Where prediction
  and label have no common shape the subtraction raises.  On three tensors of one shape
  the loss is the mean over the positions \<open>j\<close> of
  \<open>(predicted[j] - labels[j]) ** 2 * weights[j]\<close>.  For the predictions
  \<open>[1.0, 2.0]\<close>, the labels \<open>[0.0, 2.0]\<close> and the weights \<open>[2.0, 1.0]\<close> the loss
  is \<open>1.0\<close>.
\<close>

theorem weighted_mse:
  assumes "well_shaped predicted" and "well_shaped labels" and "well_shaped weights"
    and "expandable (shape weights) (shape labels)"
  shows "WeightedMSELoss_forward predicted labels weights
           = (case broadcast_shapes (shape predicted) (shape labels) of
                None \<Rightarrow> Inl RuntimeError
              | Some sh \<Rightarrow>
                  Inr (fdiv (py_sum (map (weighted_square predicted labels weights) (indices sh)))
                         (Fin (real (prod_list sh)))))
         \<and> (shape predicted = shape labels \<and> shape weights = shape labels \<longrightarrow>
              WeightedMSELoss_forward predicted labels weights
                = Inr (fdiv (py_sum (map (\<lambda>j. let difference = fadd (elems predicted ! j)
                                                                  (fneg (elems labels ! j))
                                              in fmul (fmul difference difference)
                                                   (elems weights ! j))
                                       [0..<length (elems labels)]))
                         (Fin (real (length (elems labels))))))
         \<and> WeightedMSELoss_forward
              \<lparr>shape = [2], elems = [Fin 1, Fin 2]\<rparr>
              \<lparr>shape = [2], elems = [Fin 0, Fin 2]\<rparr>
              \<lparr>shape = [2], elems = [Fin 2, Fin 1]\<rparr> = Inr (Fin 1)"
proof -
  have main: "WeightedMSELoss_forward predicted labels weights
           = (case broadcast_shapes (shape predicted) (shape labels) of
                None \<Rightarrow> Inl RuntimeError
              | Some sh \<Rightarrow>
                  Inr (fdiv (py_sum (map (weighted_square predicted labels weights) (indices sh)))
                         (Fin (real (prod_list sh)))))"
  proof (cases "broadcast_shapes (shape predicted) (shape labels)")
    case None
    then show ?thesis by (simp add: forward_no_shape)
  next
    case (Some sh)
    then show ?thesis using forward_broadcast [OF assms Some] by simp
  qed
  have example: "WeightedMSELoss_forward
              \<lparr>shape = [2], elems = [Fin 1, Fin 2]\<rparr>
              \<lparr>shape = [2], elems = [Fin 0, Fin 2]\<rparr>
              \<lparr>shape = [2], elems = [Fin 2, Fin 1]\<rparr> = Inr (Fin 1)"
    by (simp add: WeightedMSELoss_forward_def torch_add_def torch_mul_def torch_neg_def
          torch_pow_2_def torch_mean_def expand_as_def pointwise_def broadcast_shapes_same
          expand_def py_sum_def Let_def)
  from main forward_same_shape [OF assms(1,2,3)] example show ?thesis by blast
qed

theorem weighted_mse_witness:
  "well_shaped \<lparr>shape = [2], elems = [Fin 1, Fin 2]\<rparr>
   \<and> well_shaped \<lparr>shape = [2, 2], elems = [Fin 0, Fin 1, Fin 3, Fin 5]\<rparr>
   \<and> well_shaped \<lparr>shape = [2, 1], elems = [Fin 1, Fin 10]\<rparr>
   \<and> expandable [2, 1] [2, 2]
   \<and> WeightedMSELoss_forward
        \<lparr>shape = [2], elems = [Fin 1, Fin 2]\<rparr>
        \<lparr>shape = [2, 2], elems = [Fin 0, Fin 1, Fin 3, Fin 5]\<rparr>
        \<lparr>shape = [2, 1], elems = [Fin 1, Fin 10]\<rparr> = Inr (Fin 33)
   \<and> well_shaped \<lparr>shape = [2], elems = [Fin 1, Fin 10]\<rparr>
   \<and> expandable [2] [2, 2]
   \<and> WeightedMSELoss_forward
        \<lparr>shape = [2], elems = [Fin 1, Fin 2]\<rparr>
        \<lparr>shape = [2, 2], elems = [Fin 0, Fin 1, Fin 3, Fin 5]\<rparr>
        \<lparr>shape = [2], elems = [Fin 1, Fin 10]\<rparr> = Inr (Fin (105 / 4))"
proof -
  let ?p = "\<lparr>shape = [2], elems = [Fin 1, Fin 2]\<rparr>"
  let ?l = "\<lparr>shape = [2, 2], elems = [Fin 0, Fin 1, Fin 3, Fin 5]\<rparr>"
  let ?w = "\<lparr>shape = [2, 1], elems = [Fin 1, Fin 10]\<rparr>"
  have h: "well_shaped ?p" "well_shaped ?l" "well_shaped ?w"
    by (simp_all add: well_shaped_def)
  have e: "expandable [2, 1] [2, 2]" by (simp add: expandable_def)
  then have e': "expandable (shape ?w) (shape ?l)" by simp
  have "WeightedMSELoss_forward ?p ?l ?w
          = (case broadcast_shapes (shape ?p) (shape ?l) of
               None \<Rightarrow> Inl RuntimeError
             | Some sh \<Rightarrow>
                 Inr (fdiv (py_sum (map (weighted_square ?p ?l ?w) (indices sh)))
                        (Fin (real (prod_list sh)))))"
    using weighted_mse [OF h e'] by blast
  then have first: "WeightedMSELoss_forward ?p ?l ?w = Inr (Fin 33)"
    by (simp add: broadcast_shapes_def weighted_square_def element_def broadcast_index_def
          py_sum_def Let_def numeral_2_eq_2)
  let ?v = "\<lparr>shape = [2], elems = [Fin 1, Fin 10]\<rparr>"
  have hv: "well_shaped ?v" by (simp add: well_shaped_def)
  have ev: "expandable [2] [2, 2]" by (simp add: expandable_def)
  then have ev': "expandable (shape ?v) (shape ?l)" by simp
  have "WeightedMSELoss_forward ?p ?l ?v
          = (case broadcast_shapes (shape ?p) (shape ?l) of
               None \<Rightarrow> Inl RuntimeError
             | Some sh \<Rightarrow>
                 Inr (fdiv (py_sum (map (weighted_square ?p ?l ?v) (indices sh)))
                        (Fin (real (prod_list sh)))))"
    using weighted_mse [OF h(1,2) hv ev'] by blast
  then have "WeightedMSELoss_forward ?p ?l ?v = Inr (Fin (105 / 4))"
    by (simp add: broadcast_shapes_def weighted_square_def element_def broadcast_index_def
          py_sum_def Let_def numeral_2_eq_2)
  with first h e hv ev show ?thesis by blast
qed

end
